theory Spec2Isabelle
  imports Complex_Main "HOL-Library.Log_Nat"
begin

section \<open>Conventions of the embedding\<close>

text \<open>
  The Go sources \<^verbatim>\<open>history.go\<close>, \<^verbatim>\<open>chart.go\<close> and \<^verbatim>\<open>internal/viewer/viewer.go\<close>
  are embedded as HOL functions.

  \<^item> Go \<^verbatim>\<open>int\<close> is \<^typ>\<open>int\<close> where the code computes a slice length, a column or
    a difference of two of them, which are far inside 64 bits. Where the 64 bits matter
    (the conversion of a float, a \<^verbatim>\<open>time.Duration\<close>) the bounds are written out.
  \<^item> A \<^verbatim>\<open>float64\<close> that the program stores or receives (a temperature, a range
    bound, a threshold) is a \<^typ>\<open>real\<close>, standing for the finite float64 of that value;
    comparison of finite floats is the order of the reals. Arithmetic on floats is done
    in the type \<open>f64\<close> below, which has the infinities and NaN and rounds every
    result to float64.
  \<^item> A run-time panic is a value \<open>Inl p\<close> of the result type \<open>panic + 'a\<close>.
  \<^item> Allocation (\<^verbatim>\<open>make\<close>, \<^verbatim>\<open>append\<close>) always succeeds when its size arguments are
    non-negative; this includes \<^verbatim>\<open>make([]float64, 0, n)\<close> in \<^verbatim>\<open>LastN\<close>, whatever \<open>n\<close>.
\<close>

datatype panic = SliceBoundsOutOfRange | IndexOutOfRange | MakeSliceOutOfRange

subsection \<open>time.Time\<close>

text \<open>
  A \<^verbatim>\<open>time.Time\<close> is an instant (seconds since the Unix epoch and nanoseconds within
  the second) together with the offset east of UTC of its location, in seconds. The
  calendar fields are read off the wall clock \<open>unixSec + zoneOffset\<close>.
\<close>

record gotime =
  unixSec :: int
  nsec :: int
  zoneOffset :: int

text \<open>Seconds from January 1, year 1, 00:00:00 UTC to the Unix epoch.\<close>

definition unixToInternal :: int where
  "unixToInternal = 62135596800"

definition IsZero :: "gotime \<Rightarrow> bool" where
  "IsZero t \<longleftrightarrow> unixSec t + unixToInternal = 0 \<and> nsec t = 0"

definition Second :: "gotime \<Rightarrow> int" where
  "Second t = (unixSec t + zoneOffset t) mod 60"

definition Minute :: "gotime \<Rightarrow> int" where
  "Minute t = ((unixSec t + zoneOffset t) mod 3600) div 60"

definition Hour :: "gotime \<Rightarrow> int" where
  "Hour t = ((unixSec t + zoneOffset t) mod 86400) div 3600"

definition Unix :: "gotime \<Rightarrow> int" where
  "Unix t = unixSec t"

definition Before :: "gotime \<Rightarrow> gotime \<Rightarrow> bool" where
  "Before t u \<longleftrightarrow> unixSec t < unixSec u \<or> (unixSec t = unixSec u \<and> nsec t < nsec u)"






subsection \<open>float64 arithmetic\<close>

text \<open>
  The result of a float64 operation: a finite value, an infinity or NaN. The two zeros
  are not told apart: the modelled code never divides by a zero and never prints one.
\<close>

datatype f64 = Fin real | PInf | NInf | NaN

definition MaxFloat64 :: real where
  "MaxFloat64 = 2 ^ 1024 - 2 ^ 971"

definition pow2 :: "int \<Rightarrow> real" where
  "pow2 k = (if 0 \<le> k then 2 ^ nat k else 1 / 2 ^ nat (- k))"

text \<open>For \<open>x > 0\<close>, the exponent \<open>e\<close> with \<open>2^e \<le> x < 2^(e+1)\<close>.\<close>

definition ilog2 :: "real \<Rightarrow> int" where
  "ilog2 x = (if 1 \<le> x then bitlen \<lfloor>x\<rfloor> - 1 else - bitlen (\<lceil>1 / x\<rceil> - 1))"

text \<open>Rounding to the nearest integer, a tie to the even one.\<close>

definition round_even :: "real \<Rightarrow> int" where
  "round_even t =
     (let f = \<lfloor>t\<rfloor>; d = t - of_int f
      in if d < 1 / 2 then f else if 1 / 2 < d then f + 1
         else if even f then f else f + 1)"

text \<open>
  IEEE 754 rounding of an exact result to binary64, to nearest, ties to even: the
  result is a multiple of the unit in the last place \<open>q\<close> of the binade of \<open>x\<close> (53
  significant bits; the binades below \<open>2^-1022\<close> share the subnormal unit \<open>2^-1074\<close>),
  and a result beyond \<open>MaxFloat64\<close> is an infinity.
\<close>

definition f64_of_real :: "real \<Rightarrow> f64" where
  "f64_of_real x =
     (if x = 0 then Fin 0
      else let q = pow2 (max (ilog2 \<bar>x\<bar>) (- 1022) - 52);
               y = of_int (round_even (x / q)) * q
           in if MaxFloat64 < \<bar>y\<bar> then (if 0 < x then PInf else NInf) else Fin y)"

text \<open>The conversion \<^verbatim>\<open>float64(n)\<close> of an integer.\<close>

definition float64_of_int :: "int \<Rightarrow> f64" where
  "float64_of_int n = f64_of_real (of_int n)"


fun f_sub :: "f64 \<Rightarrow> f64 \<Rightarrow> f64" where
  "f_sub NaN b = NaN"
| "f_sub a NaN = NaN"
| "f_sub (Fin x) (Fin y) = f64_of_real (x - y)"
| "f_sub PInf PInf = NaN"
| "f_sub NInf NInf = NaN"
| "f_sub PInf b = PInf"
| "f_sub NInf b = NInf"
| "f_sub (Fin x) PInf = NInf"
| "f_sub (Fin x) NInf = PInf"

fun f_mul :: "f64 \<Rightarrow> f64 \<Rightarrow> f64" where
  "f_mul NaN b = NaN"
| "f_mul a NaN = NaN"
| "f_mul (Fin x) (Fin y) = f64_of_real (x * y)"
| "f_mul PInf (Fin y) = (if y = 0 then NaN else if 0 < y then PInf else NInf)"
| "f_mul NInf (Fin y) = (if y = 0 then NaN else if 0 < y then NInf else PInf)"
| "f_mul (Fin x) PInf = (if x = 0 then NaN else if 0 < x then PInf else NInf)"
| "f_mul (Fin x) NInf = (if x = 0 then NaN else if 0 < x then NInf else PInf)"
| "f_mul PInf PInf = PInf"
| "f_mul NInf NInf = PInf"
| "f_mul PInf NInf = NInf"
| "f_mul NInf PInf = NInf"

text \<open>
  Division. A finite divisor in the modelled code is never zero (the span is replaced
  by \<open>1\<close> when it is \<open>\<le> 0\<close>, a length is divided by only when it is positive); for
  completeness a zero divisor is taken as \<open>+0\<close>.
\<close>

fun f_div :: "f64 \<Rightarrow> f64 \<Rightarrow> f64" where
  "f_div NaN b = NaN"
| "f_div a NaN = NaN"
| "f_div (Fin x) (Fin y) =
     (if y = 0 then (if x = 0 then NaN else if 0 < x then PInf else NInf)
      else f64_of_real (x / y))"
| "f_div (Fin x) PInf = Fin 0"
| "f_div (Fin x) NInf = Fin 0"
| "f_div PInf (Fin y) = (if 0 \<le> y then PInf else NInf)"
| "f_div NInf (Fin y) = (if 0 \<le> y then NInf else PInf)"
| "f_div a b = NaN"

text \<open>The comparisons \<^verbatim>\<open><=\<close> and \<^verbatim>\<open>>=\<close>; every comparison with NaN is false.\<close>

fun f_le :: "f64 \<Rightarrow> f64 \<Rightarrow> bool" where
  "f_le NaN b = False"
| "f_le a NaN = False"
| "f_le (Fin x) (Fin y) = (x \<le> y)"
| "f_le NInf b = True"
| "f_le a PInf = True"
| "f_le a b = False"

definition f_ge :: "f64 \<Rightarrow> f64 \<Rightarrow> bool" where
  "f_ge a b = f_le b a"

text \<open>
  \<^verbatim>\<open>math.Max\<close> and \<^verbatim>\<open>math.Min\<close>, with the special cases in the order of the library:
  an infinity of the function's own sign wins over NaN, NaN over everything else.
\<close>

definition math_Max :: "f64 \<Rightarrow> f64 \<Rightarrow> f64" where
  "math_Max x y =
     (if x = PInf \<or> y = PInf then PInf
      else if x = NaN \<or> y = NaN then NaN
      else if f_le y x then x else y)"

definition math_Min :: "f64 \<Rightarrow> f64 \<Rightarrow> f64" where
  "math_Min x y =
     (if x = NInf \<or> y = NInf then NInf
      else if x = NaN \<or> y = NaN then NaN
      else if f_le x y then x else y)"

text \<open>
  The conversion \<^verbatim>\<open>int(x)\<close> of a float truncates toward zero. For NaN, an infinity or
  a value outside 64 bits the language leaves the result to the implementation; the
  instruction that the compiler emits on amd64 yields \<open>-2^63\<close>, and that is the
  result taken here.
\<close>

definition go_int :: "f64 \<Rightarrow> int" where
  "go_int v =
     (case v of
        Fin x \<Rightarrow>
          (let n = (if 0 \<le> x then \<lfloor>x\<rfloor> else \<lceil>x\<rceil>)
           in if - (2 ^ 63) \<le> n \<and> n < 2 ^ 63 then n else - (2 ^ 63))
      | PInf \<Rightarrow> - (2 ^ 63)
      | NInf \<Rightarrow> - (2 ^ 63)
      | NaN \<Rightarrow> - (2 ^ 63))"

section \<open>history.go\<close>

record HistoryPoint =
  Temp :: real
  Time :: gotime

text \<open>
  The fields \<^verbatim>\<open>Max\<close> and \<^verbatim>\<open>Min\<close> of the source are \<open>Max_field\<close> and \<open>Min_field\<close>
  here, since \<open>Max\<close> and \<open>Min\<close> are constants of HOL.
\<close>

record History =
  Points :: "HistoryPoint list"
  Max_field :: int
  Min_field :: real
  Peak :: real

text \<open>\<^verbatim>\<open>make([]HistoryPoint, 0, capacity)\<close> panics on a negative capacity.\<close>

definition NewHistory :: "int \<Rightarrow> panic + History" where
  "NewHistory capacity =
     (if capacity < 0 then Inl MakeSliceOutOfRange
      else Inr \<lparr>Points = [], Max_field = capacity,
                Min_field = MaxFloat64, Peak = - MaxFloat64\<rparr>)"

text \<open>The builtin \<^verbatim>\<open>copy(dst, src)\<close>: the first \<open>min (len dst) (len src)\<close> elements.\<close>

definition go_copy :: "'a list \<Rightarrow> 'a list \<Rightarrow> 'a list" where
  "go_copy dst src =
     (let n = min (length dst) (length src) in take n src @ drop n dst)"

text \<open>
  \<^verbatim>\<open>Push\<close>. In the full branch the slice expression \<^verbatim>\<open>h.Points[1:]\<close> panics when the
  slice is empty, which happens exactly when \<^verbatim>\<open>h.Max <= 0\<close>.
\<close>

definition Push :: "History \<Rightarrow> real \<Rightarrow> gotime \<Rightarrow> panic + History" where
  "Push h temp t =
     (let p = \<lparr>Temp = temp, Time = t\<rparr> in
      case (if int (length (Points h)) \<ge> Max_field h
            then (if length (Points h) < 1 then Inl SliceBoundsOutOfRange
                  else Inr (h\<lparr>Points :=
                         (go_copy (Points h) (drop 1 (Points h)))
                           [length (Points h) - 1 := p]\<rparr>))
            else Inr (h\<lparr>Points := Points h @ [p]\<rparr>)) of
        Inl e \<Rightarrow> Inl e
      | Inr h1 \<Rightarrow>
          (let h2 = (if temp < Min_field h1 then h1\<lparr>Min_field := temp\<rparr> else h1);
               h3 = (if temp > Peak h2 then h2\<lparr>Peak := temp\<rparr> else h2)
           in Inr h3))"

definition Last :: "History \<Rightarrow> real" where
  "Last h = (if length (Points h) = 0 then 0 else Temp (Points h ! (length (Points h) - 1)))"





text \<open>A sequence of pushes; the first panic aborts the program.\<close>

fun push_all :: "History \<Rightarrow> (real \<times> gotime) list \<Rightarrow> panic + History" where
  "push_all h [] = Inr h"
| "push_all h ((temp, t) # rest) =
     (case Push h temp t of Inl e \<Rightarrow> Inl e | Inr h' \<Rightarrow> push_all h' rest)"

definition new_and_push :: "int \<Rightarrow> (real \<times> gotime) list \<Rightarrow> panic + History" where
  "new_and_push capacity xs =
     (case NewHistory capacity of Inl e \<Rightarrow> Inl e | Inr h \<Rightarrow> push_all h xs)"

definition mk_point :: "real \<times> gotime \<Rightarrow> HistoryPoint" where
  "mk_point x = \<lparr>Temp = fst x, Time = snd x\<rparr>"

subsection \<open>HistoryStore\<close>





section \<open>chart.go\<close>

text \<open>
  Terminal output. A \<^verbatim>\<open>lipgloss\<close> style is its foreground colour (the number of the
  colour) and the bold flag; \<^verbatim>\<open>style.Render(s)\<close> wraps \<open>s\<close> in escape sequences
  and leaves its characters as they are, so a rendered string is the list of its
  characters, each with the style it was rendered in. A \<^verbatim>\<open>rune\<close> is its code point.
\<close>

type_synonym rune = nat

record style =
  fg :: nat
  bold :: bool

definition Foreground :: "nat \<Rightarrow> style" where
  "Foreground c = \<lparr>fg = c, bold = False\<rparr>"

definition Render :: "style \<Rightarrow> 'a list \<Rightarrow> ('a \<times> style) list" where
  "Render st s = map (\<lambda>ch. (ch, st)) s"

definition sparkBlocks :: "rune list" where
  "sparkBlocks = [0x2581, 0x2582, 0x2583, 0x2584, 0x2585, 0x2586, 0x2587, 0x2588]"

definition noDataRune :: rune where "noDataRune = 0x254C"
definition tickRune :: rune where "tickRune = 0x2502"
definition dotRune :: rune where "dotRune = 0xB7"
definition markerRune :: rune where "markerRune = 0x25AA"
definition currentRune :: rune where "currentRune = 0x25C6"

text \<open>
  \<^verbatim>\<open>tempColor\<close>. The product \<^verbatim>\<open>high*0.85\<close> is a float64 product with the float64
  nearest to \<open>0.85\<close>.
\<close>

definition tempColor :: "real \<Rightarrow> real \<Rightarrow> real \<Rightarrow> bool \<Rightarrow> bool \<Rightarrow> nat" where
  "tempColor v high crit hasHigh hasCrit =
     (if hasCrit \<and> v \<ge> crit then 196
      else if hasHigh \<and> v \<ge> high then 208
      else if hasHigh \<and> f_ge (Fin v) (f_mul (Fin high) (f64_of_real 0.85)) then 220
      else 78)"

text \<open>Reading \<^verbatim>\<open>xs[i]\<close> panics outside \<open>[0, len xs)\<close>.\<close>

definition index :: "'a list \<Rightarrow> int \<Rightarrow> panic + 'a" where
  "index xs i = (if 0 \<le> i \<and> i < int (length xs) then Inr (xs ! nat i) else Inl IndexOutOfRange)"

text \<open>Writing \<^verbatim>\<open>xs[i] = v\<close> panics outside \<open>[0, len xs)\<close>.\<close>

definition store :: "'a list \<Rightarrow> int \<Rightarrow> 'a \<Rightarrow> panic + 'a list" where
  "store xs i v = (if 0 \<le> i \<and> i < int (length xs) then Inr (xs[nat i := v]) else Inl IndexOutOfRange)"

text \<open>
  The minute-boundary test of \<^verbatim>\<open>RenderSparklinePoints\<close>, for the point at index \<open>i\<close>
  of the (already truncated) slice \<open>points\<close>; \<open>i\<close> ranges over the slice.
\<close>

definition isMinuteTick :: "HistoryPoint list \<Rightarrow> nat \<Rightarrow> bool" where
  "isMinuteTick points i =
     (let p = points ! i in
      if \<not> IsZero (Time p) then
        (if Second (Time p) = 0 then True
         else if i > 0 \<and> \<not> IsZero (Time (points ! (i - 1))) then
           (if Minute (Time p) \<noteq> Minute (Time (points ! (i - 1))) then True else False)
         else False)
      else False)"

text \<open>One iteration of the loop over the points: the string written to the builder.\<close>

text \<open>The value \<^verbatim>\<open>norm\<close> of a point after the clamp by \<^verbatim>\<open>math.Max\<close> and \<^verbatim>\<open>math.Min\<close>.\<close>

definition spark_norm :: "HistoryPoint \<Rightarrow> real \<Rightarrow> f64 \<Rightarrow> f64" where
  "spark_norm p rangeMin span_v =
     (let norm = f_div (f_sub (Fin (Temp p)) (Fin rangeMin)) span_v;
          norm = math_Max (Fin 0) (math_Min (Fin 1) norm)
      in norm)"

definition spark_point ::
  "HistoryPoint list \<Rightarrow> real \<Rightarrow> f64 \<Rightarrow> real \<Rightarrow> real \<Rightarrow> bool \<Rightarrow> bool \<Rightarrow> nat
     \<Rightarrow> panic + (rune \<times> style) list" where
  "spark_point points rangeMin span_v high crit hasHigh hasCrit i =
     (let p = points ! i;
          norm = spark_norm p rangeMin span_v;
          idx = go_int (f_mul norm (Fin 7));
          idx = (if idx > 7 then 7 else idx)
      in if isMinuteTick points i then Inr (Render (Foreground 239) [tickRune])
         else (case index sparkBlocks idx of
                 Inl e \<Rightarrow> Inl e
               | Inr ch \<Rightarrow>
                   (let color = tempColor (Temp p) high crit hasHigh hasCrit;
                        style = Foreground color;
                        style = (if hasCrit \<and> Temp p \<ge> crit then style\<lparr>bold := True\<rparr> else style)
                    in Inr (Render style [ch]))))"

fun spark_loop ::
  "HistoryPoint list \<Rightarrow> real \<Rightarrow> f64 \<Rightarrow> real \<Rightarrow> real \<Rightarrow> bool \<Rightarrow> bool \<Rightarrow> nat list
     \<Rightarrow> (rune \<times> style) list \<Rightarrow> panic + (rune \<times> style) list" where
  "spark_loop points rangeMin span_v high crit hasHigh hasCrit [] sb = Inr sb"
| "spark_loop points rangeMin span_v high crit hasHigh hasCrit (i # rest) sb =
     (case spark_point points rangeMin span_v high crit hasHigh hasCrit i of
        Inl e \<Rightarrow> Inl e
      | Inr s \<Rightarrow> spark_loop points rangeMin span_v high crit hasHigh hasCrit rest (sb @ s))"

text \<open>\<^verbatim>\<open>span := rangeMax - rangeMin; if span <= 0 { span = 1 }\<close>\<close>

definition range_span :: "real \<Rightarrow> real \<Rightarrow> f64" where
  "range_span rangeMin rangeMax =
     (let span_v = f_sub (Fin rangeMax) (Fin rangeMin)
      in if f_le span_v (Fin 0) then Fin 1 else span_v)"

definition RenderSparklinePoints ::
  "HistoryPoint list \<Rightarrow> int \<Rightarrow> real \<Rightarrow> real \<Rightarrow> real \<Rightarrow> real \<Rightarrow> bool \<Rightarrow> bool
     \<Rightarrow> panic + (rune \<times> style) list" where
  "RenderSparklinePoints points width rangeMin rangeMax high crit hasHigh hasCrit =
     (if width \<le> 0 then Inr []
      else if length points = 0 then
        Inr (Render (Foreground 236) (replicate (nat width) noDataRune))
      else
        (let points = (if int (length points) > width
                       then drop (nat (int (length points) - width)) points else points);
             padLen = width - int (length points);
             span_v = range_span rangeMin rangeMax;
             sb = concat (replicate (nat padLen) (Render (Foreground 236) [noDataRune]))
         in spark_loop points rangeMin span_v high crit hasHigh hasCrit [0..<length points] sb))"

text \<open>The slice of points that \<^verbatim>\<open>RenderSparklinePoints\<close> and \<^verbatim>\<open>RenderTimeline\<close> draw.\<close>

definition rendered_points :: "HistoryPoint list \<Rightarrow> int \<Rightarrow> HistoryPoint list" where
  "rendered_points points width =
     (if int (length points) > width
      then drop (nat (int (length points) - width)) points else points)"

definition RenderSparkline ::
  "real list \<Rightarrow> int \<Rightarrow> real \<Rightarrow> real \<Rightarrow> real \<Rightarrow> real \<Rightarrow> bool \<Rightarrow> bool
     \<Rightarrow> panic + (rune \<times> style) list" where
  "RenderSparkline values width rangeMin rangeMax high crit hasHigh hasCrit =
     (if width \<le> 0 then Inr []
      else RenderSparklinePoints
             (map (\<lambda>v. \<lparr>Temp = v, Time = \<lparr>unixSec = - unixToInternal, nsec = 0, zoneOffset = 0\<rparr>\<rparr>) values)
             width rangeMin rangeMax high crit hasHigh hasCrit)"

subsection \<open>RenderTimeline\<close>

text \<open>\<^verbatim>\<open>t.Format("15:04")\<close>: two digits of the hour, a colon, two digits of the minute.\<close>

definition digit :: "int \<Rightarrow> char" where
  "digit d = ''0123456789'' ! nat d"

definition Format_15_04 :: "gotime \<Rightarrow> string" where
  "Format_15_04 t =
     [digit (Hour t div 10), digit (Hour t mod 10), CHR '':'',
      digit (Minute t div 10), digit (Minute t mod 10)]"

record tick =
  pos :: int
  label :: string

fun tick_loop :: "HistoryPoint list \<Rightarrow> int \<Rightarrow> nat list \<Rightarrow> tick list \<Rightarrow> tick list" where
  "tick_loop points padLen [] ticks = ticks"
| "tick_loop points padLen (i # rest) ticks =
     (let p = points ! i in
      if IsZero (Time p) then tick_loop points padLen rest ticks
      else
        (let isTick =
               (if Second (Time p) = 0 then True
                else if i > 0 \<and> \<not> IsZero (Time (points ! (i - 1))) then
                  (if Minute (Time p) \<noteq> Minute (Time (points ! (i - 1))) then True else False)
                else False)
         in if isTick
            then tick_loop points padLen rest
                   (ticks @ [\<lparr>pos = padLen + int i, label = Format_15_04 (Time p)\<rparr>])
            else tick_loop points padLen rest ticks))"

text \<open>\<^verbatim>\<open>for j, ch := range t.label { line[start+j] = ch }\<close>\<close>

fun write_label :: "char list \<Rightarrow> int \<Rightarrow> nat \<Rightarrow> string \<Rightarrow> panic + char list" where
  "write_label line start j [] = Inr line"
| "write_label line start j (ch # rest) =
     (case store line (start + int j) ch of
        Inl e \<Rightarrow> Inl e
      | Inr line' \<Rightarrow> write_label line' start (Suc j) rest)"

text \<open>The placement loop; its state is the line and \<open>lastEnd\<close>.\<close>

fun place_loop :: "int \<Rightarrow> tick list \<Rightarrow> char list \<Rightarrow> int \<Rightarrow> panic + (char list \<times> int)" where
  "place_loop width [] line lastEnd = Inr (line, lastEnd)"
| "place_loop width (t # rest) line lastEnd =
     (let start = pos t - 2;
          start = (if start < 0 then 0 else start);
          end_v = start + int (length (label t))
      in if end_v > width then place_loop width rest line lastEnd
         else if start \<le> lastEnd + 1 then place_loop width rest line lastEnd
         else (case write_label line start 0 (label t) of
                 Inl e \<Rightarrow> Inl e
               | Inr line' \<Rightarrow> place_loop width rest line' end_v))"

definition timeline_ticks :: "HistoryPoint list \<Rightarrow> int \<Rightarrow> tick list" where
  "timeline_ticks points width =
     (let points = (if int (length points) > width
                    then drop (nat (int (length points) - width)) points else points);
          padLen = width - int (length points)
      in tick_loop points padLen [0..<length points] [])"

definition RenderTimeline :: "HistoryPoint list \<Rightarrow> int \<Rightarrow> panic + (char \<times> style) list" where
  "RenderTimeline points width =
     (if length points = 0 \<or> width \<le> 0 then Inr []
      else
        (let points = (if int (length points) > width
                       then drop (nat (int (length points) - width)) points else points);
             padLen = width - int (length points);
             line = replicate (nat width) CHR '' '';
             ticks = tick_loop points padLen [0..<length points] []
         in case place_loop width ticks line (- 1) of
              Inl e \<Rightarrow> Inl e
            | Inr (line', lastEnd) \<Rightarrow> Inr (Render (Foreground 239) line')))"

subsection \<open>RenderThresholdScale\<close>

text \<open>The column \<^verbatim>\<open>int(float64(width-1) * (x - rangeMin) / span)\<close>.\<close>

definition scale_pos :: "int \<Rightarrow> real \<Rightarrow> real \<Rightarrow> f64 \<Rightarrow> int" where
  "scale_pos width x rangeMin span_v =
     go_int (f_div (f_mul (float64_of_int (width - 1)) (f_sub (Fin x) (Fin rangeMin))) span_v)"

text \<open>The rune buffer \<^verbatim>\<open>bar\<close> after the two threshold markers are written.\<close>

definition threshold_bar ::
  "real \<Rightarrow> f64 \<Rightarrow> real \<Rightarrow> real \<Rightarrow> bool \<Rightarrow> bool \<Rightarrow> int \<Rightarrow> panic + rune list" where
  "threshold_bar rangeMin span_v high crit hasHigh hasCrit width =
     (let bar = replicate (nat width) dotRune in
      case (if hasHigh \<and> high > rangeMin then
              (let pos = scale_pos width high rangeMin span_v in
               if pos \<ge> 0 \<and> pos < width then store bar pos markerRune else Inr bar)
            else Inr bar) of
        Inl e \<Rightarrow> Inl e
      | Inr bar \<Rightarrow>
          (if hasCrit \<and> crit > rangeMin then
             (let pos = scale_pos width crit rangeMin span_v in
              if pos \<ge> 0 \<and> pos < width then store bar pos markerRune else Inr bar)
           else Inr bar))"

definition scale_cell ::
  "real \<Rightarrow> real \<Rightarrow> f64 \<Rightarrow> real \<Rightarrow> real \<Rightarrow> bool \<Rightarrow> bool \<Rightarrow> int \<Rightarrow> int \<Rightarrow> int \<Rightarrow> rune
     \<Rightarrow> (rune \<times> style) list" where
  "scale_cell current rangeMin span_v high crit hasHigh hasCrit width curPos i ch =
     (if i = curPos then
        Render ((Foreground (tempColor current high crit hasHigh hasCrit))\<lparr>bold := True\<rparr>)
               [currentRune]
      else if ch = markerRune then
        (let highPos = (if hasHigh \<and> high > rangeMin
                        then scale_pos width high rangeMin span_v else - 1);
             critPos = (if hasCrit \<and> crit > rangeMin
                        then scale_pos width crit rangeMin span_v else - 1)
         in if i = critPos then Render (Foreground 196) [markerRune]
            else if i = highPos then Render (Foreground 220) [markerRune]
            else Render (Foreground 240) [markerRune])
      else Render (Foreground 236) [ch])"

definition RenderThresholdScale ::
  "real \<Rightarrow> real \<Rightarrow> real \<Rightarrow> real \<Rightarrow> real \<Rightarrow> bool \<Rightarrow> bool \<Rightarrow> int \<Rightarrow> panic + (rune \<times> style) list" where
  "RenderThresholdScale current rangeMin rangeMax high crit hasHigh hasCrit width =
     (if width \<le> 0 then Inr []
      else
        (let span_v = range_span rangeMin rangeMax
         in case threshold_bar rangeMin span_v high crit hasHigh hasCrit width of
              Inl e \<Rightarrow> Inl e
            | Inr bar \<Rightarrow>
                (let curPos = scale_pos width current rangeMin span_v;
                     curPos = (if curPos < 0 then 0 else curPos);
                     curPos = (if curPos \<ge> width then width - 1 else curPos)
                 in Inr (concat (map (\<lambda>i. scale_cell current rangeMin span_v high crit hasHigh
                                             hasCrit width curPos (int i) (bar ! i))
                                     [0..<length bar])))))"

section \<open>internal/viewer/viewer.go\<close>

record dataPoint =
  time :: gotime
  temp :: real





text \<open>
  \<^verbatim>\<open>buildSparkWindow\<close>. The loop \<^verbatim>\<open>for i := width - 1; i >= 0; i--\<close> is
  \<open>window_loop\<close> on the number of iterations left: at \<open>Suc i\<close> the loop variable is \<open>i\<close>.
\<close>

fun window_loop ::
  "(int \<rightharpoonup> real) \<Rightarrow> int \<Rightarrow> gotime list \<Rightarrow> nat \<Rightarrow> HistoryPoint list \<Rightarrow> HistoryPoint list" where
  "window_loop tempMap cursorIdx timeSlots 0 result = result"
| "window_loop tempMap cursorIdx timeSlots (Suc i) result =
     (let slotIdx = cursorIdx - int i in
      if slotIdx < 0 \<or> slotIdx \<ge> int (length timeSlots)
      then window_loop tempMap cursorIdx timeSlots i result
      else
        (let t = timeSlots ! nat slotIdx in
         case tempMap (Unix t) of
           Some tmp \<Rightarrow> window_loop tempMap cursorIdx timeSlots i (result @ [\<lparr>Temp = tmp, Time = t\<rparr>])
         | None \<Rightarrow> window_loop tempMap cursorIdx timeSlots i result))"

definition build_tempMap :: "dataPoint list \<Rightarrow> (int \<rightharpoonup> real)" where
  "build_tempMap pts = foldl (\<lambda>m p. m(Unix (time p) \<mapsto> temp p)) Map.empty pts"

definition buildSparkWindow ::
  "dataPoint list \<Rightarrow> int \<Rightarrow> int \<Rightarrow> gotime list \<Rightarrow> panic + HistoryPoint list" where
  "buildSparkWindow pts cursorIdx width timeSlots =
     (if length pts = 0 \<or> length timeSlots = 0 then Inr []
      else
        (case index timeSlots cursorIdx of
           Inl e \<Rightarrow> Inl e
         | Inr cursorTime \<Rightarrow>
             (let tempMap = build_tempMap pts;
                  result = window_loop tempMap cursorIdx timeSlots (nat width) [];
                  result =
                    (case tempMap (Unix cursorTime) of
                       Some tmp \<Rightarrow>
                         (if length result = 0 \<or> Time (result ! (length result - 1)) \<noteq> cursorTime
                          then result @ [\<lparr>Temp = tmp, Time = cursorTime\<rparr>]
                          else result)
                     | None \<Rightarrow> result)
              in Inr result)))"

section \<open>Auxiliary notions for the statements\<close>

text \<open>The last \<open>c\<close> elements of a list.\<close>

definition lastk :: "nat \<Rightarrow> 'a list \<Rightarrow> 'a list" where
  "lastk c xs = drop (length xs - c) xs"


definition hour_apart_points :: "HistoryPoint list" where
  "hour_apart_points =
     [\<lparr>Temp = 50, Time = \<lparr>unixSec = 330, nsec = 0, zoneOffset = 0\<rparr>\<rparr>,
      \<lparr>Temp = 50, Time = \<lparr>unixSec = 3930, nsec = 0, zoneOffset = 0\<rparr>\<rparr>]"


text \<open>The minute of the wall clock, counted from the epoch, that a timestamp falls in.\<close>

definition wall_minute :: "gotime \<Rightarrow> int" where
  "wall_minute t = (unixSec t + zoneOffset t) div 60"

text \<open>The start column of the label of a tick: two columns left of the tick, clamped at \<open>0\<close>.\<close>

definition label_start :: "tick \<Rightarrow> int" where
  "label_start t = (if pos t - 2 < 0 then 0 else pos t - 2)"

text \<open>
  The labels that the placement loop writes, as pairs of start column and text, in the
  order in which they are written: the decisions of \<open>place_loop\<close> without the line.
\<close>

fun placed_labels :: "int \<Rightarrow> tick list \<Rightarrow> int \<Rightarrow> (int \<times> string) list" where
  "placed_labels width [] lastEnd = []"
| "placed_labels width (t # rest) lastEnd =
     (if label_start t + int (length (label t)) > width then placed_labels width rest lastEnd
      else if label_start t \<le> lastEnd + 1 then placed_labels width rest lastEnd
      else (label_start t, label t)
             # placed_labels width rest (label_start t + int (length (label t))))"

text \<open>Column \<open>j\<close> lies in the column range of one of the labels.\<close>

definition covered :: "nat \<Rightarrow> (int \<times> string) list \<Rightarrow> bool" where
  "covered j P = list_ex (\<lambda>(s, l). s \<le> int j \<and> int j < s + int (length l)) P"

text \<open>
  Sample inputs: points at seconds 0 to 6 and 60 (ticks at the first and the last), and
  the same followed by three more seconds.
\<close>

definition right_edge_points :: "HistoryPoint list" where
  "right_edge_points =
     map (\<lambda>u. \<lparr>Temp = 50, Time = \<lparr>unixSec = u, nsec = 0, zoneOffset = 0\<rparr>\<rparr>)
         [0, 1, 2, 3, 4, 5, 6, 60]"

definition two_label_points :: "HistoryPoint list" where
  "two_label_points =
     map (\<lambda>u. \<lparr>Temp = 50, Time = \<lparr>unixSec = u, nsec = 0, zoneOffset = 0\<rparr>\<rparr>)
         [0, 1, 2, 3, 4, 5, 6, 60, 61, 62, 63]"

text \<open>The float64 nearest to \<open>15.7\<close>, the value of the Go constant \<^verbatim>\<open>15.7\<close>.\<close>

definition float_15_7 :: real where
  "float_15_7 = 4419157134357299 / 281474976710656"





text \<open>Two timestamps denote the same instant.\<close>

definition same_instant :: "gotime \<Rightarrow> gotime \<Rightarrow> bool" where
  "same_instant a b \<longleftrightarrow> unixSec a = unixSec b \<and> nsec a = nsec b"

text \<open>The series has a value at the timestamp \<open>s\<close>; the value it has there.\<close>

definition has_value :: "dataPoint list \<Rightarrow> gotime \<Rightarrow> bool" where
  "has_value pts s = list_ex (\<lambda>p. same_instant (time p) s) pts"

definition series_value :: "dataPoint list \<Rightarrow> gotime \<Rightarrow> real" where
  "series_value pts s = (case find (\<lambda>p. same_instant (time p) s) pts of
                           Some p \<Rightarrow> temp p | None \<Rightarrow> 0)"

text \<open>
  Sample inputs: a series and a slot within the same second, 0.4 s apart; a series with
  values at two of four whole-second slots.
\<close>

definition subsecond_series :: "dataPoint list" where
  "subsecond_series = [\<lparr>time = \<lparr>unixSec = 10, nsec = 100000000, zoneOffset = 0\<rparr>, temp = 41\<rparr>]"

definition subsecond_slots :: "gotime list" where
  "subsecond_slots = [\<lparr>unixSec = 10, nsec = 500000000, zoneOffset = 0\<rparr>]"

definition gap_series :: "dataPoint list" where
  "gap_series =
     [\<lparr>time = \<lparr>unixSec = 10, nsec = 0, zoneOffset = 0\<rparr>, temp = 41\<rparr>,
      \<lparr>time = \<lparr>unixSec = 12, nsec = 0, zoneOffset = 0\<rparr>, temp = 43\<rparr>]"

definition gap_slots :: "gotime list" where
  "gap_slots =
     [\<lparr>unixSec = 9, nsec = 0, zoneOffset = 0\<rparr>, \<lparr>unixSec = 10, nsec = 0, zoneOffset = 0\<rparr>,
      \<lparr>unixSec = 11, nsec = 0, zoneOffset = 0\<rparr>, \<lparr>unixSec = 12, nsec = 0, zoneOffset = 0\<rparr>]"



section \<open>Properties of the float64 rounding\<close>

lemma pow2_pos: "0 < pow2 k"
  by (simp add: pow2_def)

lemma pow2_nonpos: "k \<le> 0 \<Longrightarrow> pow2 k = 1 / 2 ^ nat (- k)"
  by (cases "k = 0") (simp_all add: pow2_def)

lemma pow2_nat: "pow2 (int n) = 2 ^ n"
  by (simp add: pow2_def)




lemma round_even_of_int: "round_even (of_int n) = n"
  by (simp add: round_even_def)



lemma bitlen_eq_Suc:
  assumes "2 ^ m \<le> a" and "a < 2 ^ Suc m"
  shows "bitlen a = int m + 1"
proof -
  have n: "nat (int m + 1) = Suc m" by linarith
  have "2 ^ (nat (int m + 1) - 1) \<le> a" using assms(1) by (simp only: n diff_Suc_1)
  then have ge: "int m + 1 \<le> bitlen a" by (simp only: bitlen_ge_iff_power) simp
  have "a < 2 ^ nat (int m + 1)" using assms(2) by (simp only: n)
  then have le: "bitlen a \<le> int m + 1" by (simp only: bitlen_le_iff_power) simp
  show ?thesis using ge le by simp
qed

text \<open>The exponent found by \<open>ilog2\<close>, given its bounds: for the evaluation of sample inputs.\<close>

lemma ilog2_eq:
  assumes "pow2 e \<le> x" and "x < pow2 (e + 1)"
  shows "ilog2 x = e"
proof (cases "1 \<le> x")
  case True
  have e0: "0 \<le> e"
  proof (rule ccontr)
    assume "\<not> 0 \<le> e"
    then have "e + 1 \<le> 0" by simp
    then have "pow2 (e + 1) \<le> 1" by (simp add: pow2_nonpos)
    then show False using assms(2) True by simp
  qed
  define m where "m = nat e"
  have e: "e = int m" using e0 by (simp add: m_def)
  have lo: "2 ^ m \<le> x" using assms(1) by (simp add: e pow2_nat)
  have hi: "x < 2 ^ Suc m" using assms(2) pow2_nat[of "Suc m"] by (simp add: e add.commute)
  have "(2::int) ^ m \<le> \<lfloor>x\<rfloor>" using lo by (simp add: le_floor_iff)
  moreover have "\<lfloor>x\<rfloor> < (2::int) ^ Suc m" using hi by (simp add: floor_less_iff)
  ultimately have "bitlen \<lfloor>x\<rfloor> = int m + 1" by (rule bitlen_eq_Suc)
  then show ?thesis using True by (simp add: ilog2_def e)
next
  case False
  have xpos: "0 < x" using assms(1) pow2_pos[of e] by linarith
  have e0: "e < 0"
  proof (rule ccontr)
    assume "\<not> e < 0"
    then have "1 \<le> pow2 e" by (simp add: pow2_def)
    then show False using assms(1) False by simp
  qed
  define m where "m = nat (- e - 1)"
  have e: "e = - int (Suc m)" using e0 by (simp add: m_def)
  have ne: "nat (- e) = Suc m" "nat (- (e + 1)) = m" using e by linarith+
  have "pow2 e = 1 / 2 ^ Suc m" using pow2_nonpos[of e] e0 by (simp only: ne)
  then have lo: "1 / 2 ^ Suc m \<le> x" using assms(1) by simp
  have "pow2 (e + 1) = 1 / 2 ^ m" using pow2_nonpos[of "e + 1"] e0 by (simp only: ne)
  then have hi: "x < 1 / 2 ^ m" using assms(2) by simp
  have a: "1 / x \<le> 2 ^ Suc m" using lo xpos by (simp add: field_simps)
  have b: "2 ^ m < 1 / x" using hi xpos by (simp add: field_simps)
  define c where "c = \<lceil>1 / x\<rceil>"
  have "c \<le> 2 ^ Suc m" unfolding c_def using a by (simp add: ceiling_le_iff)
  then have c1: "c - 1 < 2 ^ Suc m" by simp
  have "(2::int) ^ m < c" unfolding c_def using b by (simp add: less_ceiling_iff)
  then have c2: "(2::int) ^ m \<le> c - 1" by simp
  have "bitlen (c - 1) = int m + 1" using c2 c1 by (rule bitlen_eq_Suc)
  then show ?thesis using False by (simp add: ilog2_def e c_def)
qed

lemma f64_of_real_eval:
  assumes "pow2 e \<le> \<bar>x\<bar>" and "\<bar>x\<bar> < pow2 (e + 1)"
  shows "f64_of_real x =
     (let q = pow2 (max e (- 1022) - 52);
          y = of_int (round_even (x / q)) * q
      in if MaxFloat64 < \<bar>y\<bar> then (if 0 < x then PInf else NInf) else Fin y)"
proof -
  have "x \<noteq> 0" using assms(1) pow2_pos[of e] by auto
  then show ?thesis by (simp add: f64_of_real_def ilog2_eq[OF assms])
qed

lemma f64_of_real_not_NaN: "f64_of_real x \<noteq> NaN"
  by (simp add: f64_of_real_def Let_def)

text \<open>An integer of at most 53 bits is a float64.\<close>

lemma f64_of_real_int:
  assumes "\<bar>n\<bar> < 2 ^ 53"
  shows "f64_of_real (of_int n) = Fin (of_int n)"
proof (cases "n = 0")
  case True
  then show ?thesis by (simp add: f64_of_real_def)
next
  case False
  define a where "a = \<bar>n\<bar>"
  have a1: "1 \<le> a" and a53: "a < 2 ^ nat 53" using False assms by (simp_all add: a_def)
  have "bitlen a \<le> 53" using a53 by (simp only: bitlen_le_iff_power) simp
  moreover have "1 \<le> bitlen a" using a1 by (simp add: bitlen_ge_iff_power)
  ultimately have b: "1 \<le> bitlen a" "bitlen a \<le> 53" by simp_all
  have ax: "\<bar>real_of_int n\<bar> = of_int a" by (simp add: a_def)
  have il: "ilog2 \<bar>real_of_int n\<bar> = bitlen a - 1"
    using a1 by (simp add: ilog2_def ax)
  define m where "m = nat (53 - bitlen a)"
  have k: "max (ilog2 \<bar>real_of_int n\<bar>) (- 1022) - 52 = - int m"
    using b by (simp add: il m_def)
  have q: "pow2 (- int m) = 1 / 2 ^ m" using pow2_nonpos[of "- int m"] by simp
  have r: "round_even (real_of_int n * 2 ^ m) = n * 2 ^ m"
    using round_even_of_int[of "n * 2 ^ m"] by simp
  have "a < 2 ^ 53" using assms by (simp add: a_def)
  then have "real_of_int a < of_int (2 ^ 53)" by (simp only: of_int_less_iff)
  then have "real_of_int a < 2 ^ 53" by simp
  then have "\<bar>real_of_int n\<bar> \<le> MaxFloat64" unfolding ax by (simp add: MaxFloat64_def)
  then show ?thesis
    using False by (simp add: f64_of_real_def Let_def k q r)
qed

lemma float64_of_int_exact: "\<bar>n\<bar> < 2 ^ 53 \<Longrightarrow> float64_of_int n = Fin (of_int n)"
  by (simp add: float64_of_int_def f64_of_real_int)

text \<open>The float64 values of the sample inputs.\<close>

lemma f64_of_numeral: "numeral w < (2 ^ 53 :: int) \<Longrightarrow> f64_of_real (numeral w) = Fin (numeral w)"
  using f64_of_real_int[of "numeral w"] by simp

lemma f64_of_0: "f64_of_real 0 = Fin 0"
  by (simp add: f64_of_real_def)

lemma f64_of_1: "f64_of_real 1 = Fin 1"
  using f64_of_real_int[of 1] by simp

lemma f64_of_half: "f64_of_real (1 / 2) = Fin (1 / 2)"
  using f64_of_real_eval[of "- 1" "1 / 2"] by (simp add: pow2_def round_even_def MaxFloat64_def)

lemma f64_of_7_2: "f64_of_real (7 / 2) = Fin (7 / 2)"
  using f64_of_real_eval[of 1 "7 / 2"] by (simp add: pow2_def round_even_def MaxFloat64_def)

lemma f64_of_15_4: "f64_of_real (15 / 4) = Fin (15 / 4)"
  using f64_of_real_eval[of 1 "15 / 4"] by (simp add: pow2_def round_even_def MaxFloat64_def)


section \<open>Properties of the ring buffer\<close>

lemma go_copy_shift:
  "xs \<noteq> [] \<Longrightarrow> (go_copy xs (drop 1 xs))[length xs - 1 := p] = tl xs @ [p]"
proof -
  assume ne: "xs \<noteq> []"
  then obtain y ys where xs: "xs = y # ys" by (cases xs) auto
  have "go_copy xs (drop 1 xs) = ys @ drop (length ys) xs"
    by (simp add: go_copy_def xs)
  also have "drop (length ys) xs = [last xs]"
    using ne by (simp add: xs) (metis append_butlast_last_id append_eq_conv_conj length_butlast length_Cons diff_Suc_1 list.distinct(1) butlast.simps(2) last.simps)
  finally show ?thesis
    by (simp add: xs list_update_append)
qed

lemma go_copy_shift':
  "xs \<noteq> [] \<Longrightarrow> (go_copy xs (drop (Suc 0) xs))[length xs - Suc 0 := p] = tl xs @ [p]"
  using go_copy_shift[of xs p] by simp

lemma Push_ok:
  assumes "1 \<le> Max_field h \<or> Points h \<noteq> []"
  shows "Push h v t = Inr (h\<lparr>Points := (if int (length (Points h)) \<ge> Max_field h
                                       then tl (Points h) @ [\<lparr>Temp = v, Time = t\<rparr>]
                                       else Points h @ [\<lparr>Temp = v, Time = t\<rparr>]),
                          Min_field := min (Min_field h) v,
                          Peak := max (Peak h) v\<rparr>)"
proof (cases "int (length (Points h)) \<ge> Max_field h")
  case True
  with assms have ne: "Points h \<noteq> []" by auto
  then have l: "\<not> length (Points h) < 1" by (cases "Points h") auto
  show ?thesis
    using True ne l by (simp add: Push_def Let_def go_copy_shift' min_def max_def)
next
  case False
  then show ?thesis
    by (simp add: Push_def Let_def min_def max_def)
qed

lemma push_all_append:
  "push_all h (xs @ ys) = (case push_all h xs of Inl e \<Rightarrow> Inl e | Inr h' \<Rightarrow> push_all h' ys)"
  by (induction h xs rule: push_all.induct) (auto split: sum.splits)

lemma lastk_snoc:
  assumes "1 \<le> c"
  shows "lastk c (xs @ [p]) =
     (if length (lastk c xs) \<ge> c then tl (lastk c xs) @ [p] else lastk c xs @ [p])"
  using assms by (auto simp: lastk_def drop_Suc tl_drop Suc_diff_le)

lemma push_all_state:
  assumes c: "1 \<le> c" and h: "Max_field h = c" "Points h = []"
  shows "\<exists>h'. push_all h xs = Inr h' \<and> Max_field h' = c
            \<and> Points h' = lastk (nat c) (map mk_point xs)
            \<and> Min_field h' = Min (insert (Min_field h) (fst ` set xs))
            \<and> Peak h' = Max (insert (Peak h) (fst ` set xs))"
proof (induction xs rule: rev_induct)
  case Nil
  then show ?case using h by (simp add: lastk_def)
next
  case (snoc x xs)
  then obtain h' where h': "push_all h xs = Inr h'" "Max_field h' = c"
     "Points h' = lastk (nat c) (map mk_point xs)"
     "Min_field h' = Min (insert (Min_field h) (fst ` set xs))"
     "Peak h' = Max (insert (Peak h) (fst ` set xs))" by blast
  obtain v t where x: "x = (v, t)" by (cases x)
  have ok: "1 \<le> Max_field h' \<or> Points h' \<noteq> []" using c h' by simp
  have len: "int (length (lastk (nat c) (map mk_point xs))) \<ge> c \<longleftrightarrow> length (lastk (nat c) (map mk_point xs)) \<ge> nat c"
    using c by linarith
  have pts: "(if int (length (Points h')) \<ge> Max_field h'
                                       then tl (Points h') @ [\<lparr>Temp = v, Time = t\<rparr>]
                                       else Points h' @ [\<lparr>Temp = v, Time = t\<rparr>]) = lastk (nat c) (map mk_point (xs @ [x]))"
    using c lastk_snoc[of "nat c" "map mk_point xs" "mk_point x"] 
    by (simp add: h' len x mk_point_def)
  have mn: "min (Min (insert (Min_field h) (fst ` set xs))) v = Min (insert (Min_field h) (fst ` set (xs @ [x])))"
    by (cases "xs = []") (auto simp: x min.commute min.left_commute)
  have mx: "max (Max (insert (Peak h) (fst ` set xs))) v = Max (insert (Peak h) (fst ` set (xs @ [x])))"
    by (cases "xs = []") (auto simp: x max.commute max.left_commute)
  let ?h2 = "h'\<lparr>Points := (if int (length (Points h')) \<ge> Max_field h'
                                       then tl (Points h') @ [\<lparr>Temp = v, Time = t\<rparr>]
                                       else Points h' @ [\<lparr>Temp = v, Time = t\<rparr>]),
                          Min_field := min (Min_field h') v,
                          Peak := max (Peak h') v\<rparr>"
  have run: "push_all h (xs @ [x]) = Inr ?h2"
    by (simp only: push_all_append h'(1) x sum.case push_all.simps Push_ok[OF ok])
  have p2: "Points ?h2 = lastk (nat c) (map mk_point (xs @ [x]))"
    using pts by simp
  have m2: "Min_field ?h2 = Min (insert (Min_field h) (fst ` set (xs @ [x])))"
    using mn by (simp only: h'(4)) simp
  have k2: "Peak ?h2 = Max (insert (Peak h) (fst ` set (xs @ [x])))"
    using mx by (simp only: h'(5)) simp
  have c2: "Max_field ?h2 = c" using h'(2) by simp
  show ?case using run p2 m2 k2 c2 by blast
qed







lemma new_and_push_state:
  assumes c: "1 \<le> c"
  shows "\<exists>h. new_and_push c xs = Inr h \<and> Max_field h = c
            \<and> Points h = lastk (nat c) (map mk_point xs)
            \<and> Min_field h = Min (insert MaxFloat64 (fst ` set xs))
            \<and> Peak h = Max (insert (- MaxFloat64) (fst ` set xs))"
proof -
  let ?h0 = "\<lparr>Points = [], Max_field = c, Min_field = MaxFloat64, Peak = - MaxFloat64\<rparr>"
  have new: "NewHistory c = Inr ?h0" using c by (simp add: NewHistory_def)
  show ?thesis
    using push_all_state[OF c, of ?h0 xs] by (simp add: new_and_push_def new)
qed



text \<open>
  Claim C2. After a non-empty sequence of pushes of finite values into a buffer of
  capacity \<open>c \<ge> 1\<close>, \<^verbatim>\<open>Min\<close> is the least and \<^verbatim>\<open>Peak\<close> the greatest of all values
  pushed, whether or not they are still in the window.
\<close>

theorem lifetime_extrema:
  assumes "1 \<le> c" and "xs \<noteq> []" and "\<forall>x \<in> set xs. \<bar>fst x\<bar> \<le> MaxFloat64"
  shows "\<exists>h. new_and_push c xs = Inr h
           \<and> Min_field h = Min (fst ` set xs)
           \<and> Peak h = Max (fst ` set xs)"
proof -
  obtain h where h: "new_and_push c xs = Inr h"
      "Min_field h = Min (insert MaxFloat64 (fst ` set xs))"
      "Peak h = Max (insert (- MaxFloat64) (fst ` set xs))"
    using new_and_push_state[OF assms(1), of xs] by blast
  have ne: "fst ` set xs \<noteq> {}" and fin: "finite (fst ` set xs)" using assms(2) by auto
  obtain x where x: "x \<in> set xs" "fst x = Min (fst ` set xs)"
    using Min_in[OF fin ne] by auto
  obtain y where y: "y \<in> set xs" "fst y = Max (fst ` set xs)"
    using Max_in[OF fin ne] by auto
  have lo: "Min (fst ` set xs) \<le> MaxFloat64"
    using assms(3) x by fastforce
  have hi: "- MaxFloat64 \<le> Max (fst ` set xs)"
    using assms(3) y by fastforce
  have "Min (insert MaxFloat64 (fst ` set xs)) = Min (fst ` set xs)"
    using lo by (simp only: Min_insert[OF fin ne] min_absorb2)
  moreover have "Max (insert (- MaxFloat64) (fst ` set xs)) = Max (fst ` set xs)"
    using hi by (simp only: Max_insert[OF fin ne] max_absorb2)
  ultimately show ?thesis using h by auto
qed

theorem lifetime_extrema_witness:
  "(1::int) \<le> 2 \<and>
   (\<exists>h. new_and_push 2 [(30, \<lparr>unixSec = 100, nsec = 0, zoneOffset = 0\<rparr>),
                          (36, \<lparr>unixSec = 101, nsec = 0, zoneOffset = 0\<rparr>),
                          (33, \<lparr>unixSec = 102, nsec = 0, zoneOffset = 0\<rparr>),
                          (34, \<lparr>unixSec = 103, nsec = 0, zoneOffset = 0\<rparr>)] = Inr h
      \<and> map Temp (Points h) = [33, 34] \<and> Min_field h = 30 \<and> Peak h = 36)"
proof -
  let ?xs = "[(30::real, \<lparr>unixSec = 100, nsec = 0, zoneOffset = 0\<rparr>),
                          (36, \<lparr>unixSec = 101, nsec = 0, zoneOffset = 0\<rparr>),
                          (33, \<lparr>unixSec = 102, nsec = 0, zoneOffset = 0\<rparr>),
                          (34, \<lparr>unixSec = 103, nsec = 0, zoneOffset = 0\<rparr>)]"
  have c: "(1::int) \<le> 2" by simp
  have ne: "?xs \<noteq> []" by simp
  have fin: "\<forall>x \<in> set ?xs. \<bar>fst x\<bar> \<le> MaxFloat64" by (simp add: MaxFloat64_def)
  obtain h where h: "new_and_push 2 ?xs = Inr h"
     "Min_field h = Min (fst ` set ?xs)" "Peak h = Max (fst ` set ?xs)"
    using lifetime_extrema[OF c ne fin] by blast
  have run: "new_and_push 2 ?xs = Inr \<lparr>Points = [\<lparr>Temp = 33, Time = \<lparr>unixSec = 102, nsec = 0, zoneOffset = 0\<rparr>\<rparr>,
      \<lparr>Temp = 34, Time = \<lparr>unixSec = 103, nsec = 0, zoneOffset = 0\<rparr>\<rparr>], Max_field = 2, Min_field = 30, Peak = 36\<rparr>"
    by (simp add: new_and_push_def NewHistory_def Push_def go_copy_def MaxFloat64_def)
  have "map Temp (Points h) = [33, 34]" using h(1) run by auto
  moreover have "Min_field h = 30" "Peak h = 36" using h(2,3) by simp_all
  ultimately show ?thesis using h(1) by auto
qed


section \<open>Properties of the sparkline\<close>

lemma range_span_cases:
  "range_span rangeMin rangeMax = PInf
   \<or> (\<exists>s. 0 < s \<and> range_span rangeMin rangeMax = Fin s)"
proof (cases "f64_of_real (rangeMax - rangeMin)")
  case (Fin y)
  then show ?thesis by (cases "y \<le> 0") (simp_all add: range_span_def)
next
  case PInf
  then show ?thesis by (simp add: range_span_def)
next
  case NInf
  then show ?thesis by (simp add: range_span_def)
next
  case NaN
  then show ?thesis using f64_of_real_not_NaN by blast
qed











lemma RenderSparklinePoints_nonempty:
  assumes "0 < width" "points \<noteq> []"
  shows "RenderSparklinePoints points width rangeMin rangeMax high crit hasHigh hasCrit =
           spark_loop (rendered_points points width) rangeMin (range_span rangeMin rangeMax)
             high crit hasHigh hasCrit [0..<length (rendered_points points width)]
             (replicate (nat (width - int (length (rendered_points points width))))
                (noDataRune, Foreground 236))"
proof -
  have c: "concat (replicate n (Render (Foreground 236) [noDataRune])) = replicate n (noDataRune, Foreground 236)" for n
    by (induction n) (auto simp: Render_def)
  show ?thesis
    using assms unfolding RenderSparklinePoints_def Let_def rendered_points_def[symmetric] c
    by simp
qed



text \<open>
  The cells of the two sample inputs at width 3 and 2, range \<open>[0, 100]\<close>: the value 50
  has the normalised value \<open>0.5\<close>, the index \<open>int(3.5) = 3\<close> and the colour of a
  temperature without thresholds.
\<close>

lemma spark_norm_50: "spark_norm \<lparr>Temp = 50, Time = t\<rparr> 0 (Fin 100) = Fin (1 / 2)"
  by (simp add: spark_norm_def f64_of_numeral f64_of_half math_Max_def math_Min_def)

lemma range_span_0_100: "range_span 0 100 = Fin 100"
  by (simp add: range_span_def f64_of_numeral)

lemma go_int_7_2: "go_int (f64_of_real (7 / 2)) = 3"
proof -
  have "\<lfloor>7 / 2 :: real\<rfloor> = 3" by (simp add: floor_eq_iff)
  then show ?thesis by (simp add: f64_of_7_2 go_int_def)
qed







text \<open>
  Claim C4: the code departs from it. Two points one hour apart (00:05:30 and
  01:05:30) fall in different minutes, the second has a non-zero timestamp and non-zero
  seconds, and the previous point has a timestamp; yet the second point is drawn as a
  value glyph and not as the tick, because the code compares \<^verbatim>\<open>Minute()\<close>, the minute
  within the hour, which is 5 for both.
\<close>

theorem sparkline_ticks_hour_apart:
  "RenderSparklinePoints hour_apart_points 2 0 100 0 0 False False
     = Inr [(0x2584, Foreground 78), (0x2584, Foreground 78)]
   \<and> rendered_points hour_apart_points 2 = hour_apart_points
   \<and> \<not> IsZero (Time (hour_apart_points ! 1))
   \<and> Second (Time (hour_apart_points ! 1)) \<noteq> 0
   \<and> \<not> IsZero (Time (hour_apart_points ! 0))
   \<and> wall_minute (Time (hour_apart_points ! 0)) \<noteq> wall_minute (Time (hour_apart_points ! 1))
   \<and> Minute (Time (hour_apart_points ! 0)) = Minute (Time (hour_apart_points ! 1))
   \<and> (0x2584 :: rune) \<noteq> tickRune"
proof -
  have t0: "\<not> isMinuteTick hour_apart_points 0"
    by (simp add: isMinuteTick_def hour_apart_points_def IsZero_def Second_def unixToInternal_def)
  have t1: "\<not> isMinuteTick hour_apart_points (Suc 0)"
    by (simp add: isMinuteTick_def hour_apart_points_def IsZero_def Second_def Minute_def
          unixToInternal_def)
  have p0: "spark_point hour_apart_points 0 (Fin 100) 0 0 False False 0 = Inr [(0x2584, Foreground 78)]"
    using t0 unfolding spark_point_def Let_def
    by (simp add: hour_apart_points_def spark_norm_50 go_int_7_2 index_def sparkBlocks_def
          Render_def tempColor_def)
  have p1: "spark_point hour_apart_points 0 (Fin 100) 0 0 False False (Suc 0) = Inr [(0x2584, Foreground 78)]"
    using t1 unfolding spark_point_def Let_def
    by (simp add: hour_apart_points_def spark_norm_50 go_int_7_2 index_def sparkBlocks_def
          Render_def tempColor_def)
  have l: "length hour_apart_points = 2" by (simp add: hour_apart_points_def)
  have ne: "hour_apart_points \<noteq> []" by (simp add: hour_apart_points_def)
  have B: "rendered_points hour_apart_points 2 = hour_apart_points"
    by (simp add: rendered_points_def l)
  have r: "RenderSparklinePoints hour_apart_points 2 0 100 0 0 False False
             = spark_loop hour_apart_points 0 (Fin 100) 0 0 False False [0, Suc 0] []"
    using RenderSparklinePoints_nonempty[of 2 hour_apart_points 0 100 0 0 False False] ne
    by (simp add: B l range_span_0_100 upt_rec)
  have A: "RenderSparklinePoints hour_apart_points 2 0 100 0 0 False False
     = Inr [(0x2584, Foreground 78), (0x2584, Foreground 78)]"
    unfolding r by (simp add: p0 p1)
  have C: "\<not> IsZero (Time (hour_apart_points ! 1)) \<and> Second (Time (hour_apart_points ! 1)) \<noteq> 0
     \<and> \<not> IsZero (Time (hour_apart_points ! 0))
     \<and> wall_minute (Time (hour_apart_points ! 0)) \<noteq> wall_minute (Time (hour_apart_points ! 1))
     \<and> Minute (Time (hour_apart_points ! 0)) = Minute (Time (hour_apart_points ! 1))"
    by (simp add: hour_apart_points_def IsZero_def Second_def Minute_def wall_minute_def
          unixToInternal_def)
  have D: "(0x2584 :: rune) \<noteq> tickRune" by (simp add: tickRune_def)
  show ?thesis using A B C D by blast
qed

section \<open>Properties of the timeline\<close>

lemma store_ok: "0 \<le> i \<Longrightarrow> i < int (length xs) \<Longrightarrow> store xs i v = Inr (xs[nat i := v])"
  by (simp add: store_def)

lemma take_Suc_update: "n < length xs \<Longrightarrow> take (Suc n) (xs[n := c]) = take n xs @ [c]"
proof (induction xs arbitrary: n)
  case Nil
  then show ?case by simp
next
  case (Cons x xs)
  then show ?case by (cases n) auto
qed

lemma splice_nth_before:
  "j < a \<Longrightarrow> a + length l \<le> length xs \<Longrightarrow> (take a xs @ l @ drop (a + length l) xs) ! j = xs ! j"
  by (simp add: nth_append)

lemma splice_nth_after:
  assumes "a + length l \<le> j" and "j < length xs"
  shows "(take a xs @ l @ drop (a + length l) xs) ! j = xs ! j"
proof -
  have la: "length (take a xs) = a" using assms by simp
  have "(take a xs @ l @ drop (a + length l) xs) ! j = (l @ drop (a + length l) xs) ! (j - a)"
    using assms la by (simp add: nth_append)
  also have "\<dots> = drop (a + length l) xs ! (j - a - length l)"
  proof -
    have "\<not> j - a < length l" using assms by linarith
    then show ?thesis by (simp add: nth_append)
  qed
  also have "\<dots> = xs ! (a + length l + (j - a - length l))"
    using assms by (intro nth_drop) simp
  also have "a + length l + (j - a - length l) = j" using assms by simp
  finally show ?thesis .
qed

lemma splice_nth_in:
  "k < length l \<Longrightarrow> a + length l \<le> length xs \<Longrightarrow> (take a xs @ l @ drop (a + length l) xs) ! (a + k) = l ! k"
  by (simp add: nth_append)

lemma write_label_ok:
  assumes "0 \<le> start" and "nat start + j + length lbl \<le> length line"
  shows "write_label line start j lbl
           = Inr (take (nat start + j) line @ lbl @ drop (nat start + j + length lbl) line)"
  using assms
proof (induction lbl arbitrary: line j)
  case Nil
  then show ?case by simp
next
  case (Cons ch rest)
  let ?n = "nat start + j"
  have n: "?n < length line" using Cons.prems by simp
  have idx: "nat (start + int j) = ?n" using Cons.prems(1) by simp
  have st: "store line (start + int j) ch = Inr (line[?n := ch])"
    using store_ok[of "start + int j" line ch] Cons.prems n idx by simp
  have ih: "write_label (line[?n := ch]) start (Suc j) rest
         = Inr (take (Suc ?n) (line[?n := ch]) @ rest
                @ drop (Suc ?n + length rest) (line[?n := ch]))"
    using Cons.IH[of "Suc j" "line[?n := ch]"] Cons.prems by simp
  have t: "take (Suc ?n) (line[?n := ch]) = take ?n line @ [ch]"
    using n by (rule take_Suc_update)
  have d: "drop (Suc ?n + length rest) (line[?n := ch])
             = drop (?n + length (ch # rest)) line"
    by simp
  have "write_label line start j (ch # rest) = write_label (line[?n := ch]) start (Suc j) rest"
    by (simp only: write_label.simps st sum.case)
  also have "\<dots> = Inr ((take ?n line @ [ch]) @ rest @ drop (?n + length (ch # rest)) line)"
    by (simp only: ih t d)
  finally show ?case by simp
qed

lemma placed_labels_after:
  "(s, l) \<in> set (placed_labels width ts lastEnd)
     \<Longrightarrow> lastEnd + 2 \<le> s \<and> 0 \<le> s \<and> s + int (length l) \<le> width"
proof (induction ts arbitrary: lastEnd)
  case Nil
  then show ?case by simp
next
  case (Cons t rest)
  have s0: "0 \<le> label_start t" by (simp add: label_start_def)
  show ?case
  proof (cases "label_start t + int (length (label t)) > width \<or> label_start t \<le> lastEnd + 1")
    case True
    then have "placed_labels width (t # rest) lastEnd = placed_labels width rest lastEnd" by auto
    then show ?thesis using Cons by simp
  next
    case False
    then have eq: "placed_labels width (t # rest) lastEnd
                 = (label_start t, label t) # placed_labels width rest (label_start t + int (length (label t)))"
      by auto
    from Cons.prems[unfolded eq] consider "(s, l) = (label_start t, label t)"
      | "(s, l) \<in> set (placed_labels width rest (label_start t + int (length (label t))))"
      by auto
    then show ?thesis
    proof cases
      case 1
      then show ?thesis using False s0 by auto
    next
      case 2
      from Cons.IH[OF 2] show ?thesis using False by auto
    qed
  qed
qed

lemma placed_labels_gapped:
  "sorted_wrt (\<lambda>a b. fst a + int (length (snd a)) + 2 \<le> fst b) (placed_labels width ts lastEnd)"
proof (induction ts arbitrary: lastEnd)
  case Nil
  then show ?case by simp
next
  case (Cons t rest)
  show ?case
  proof (cases "label_start t + int (length (label t)) > width \<or> label_start t \<le> lastEnd + 1")
    case True
    then have "placed_labels width (t # rest) lastEnd = placed_labels width rest lastEnd" by auto
    then show ?thesis using Cons by simp
  next
    case False
    then have eq: "placed_labels width (t # rest) lastEnd
                 = (label_start t, label t) # placed_labels width rest (label_start t + int (length (label t)))"
      by auto
    have "\<forall>b \<in> set (placed_labels width rest (label_start t + int (length (label t)))).
             label_start t + int (length (label t)) + 2 \<le> fst b"
      using placed_labels_after by fastforce
    then show ?thesis unfolding eq using Cons.IH by simp
  qed
qed

lemma place_loop_line:
  assumes "length line = nat width"
  shows "\<exists>line' lastEnd'. place_loop width ts line lastEnd = Inr (line', lastEnd')
           \<and> length line' = length line
           \<and> (\<forall>j < length line. \<not> covered j (placed_labels width ts lastEnd) \<longrightarrow> line' ! j = line ! j)
           \<and> (\<forall>(s, l) \<in> set (placed_labels width ts lastEnd).
                 \<forall>k < length l. line' ! (nat s + k) = l ! k)"
  using assms
proof (induction ts arbitrary: line lastEnd)
  case Nil
  then show ?case by (simp add: covered_def)
next
  case (Cons t rest)
  let ?s = "label_start t"
  let ?e = "?s + int (length (label t))"
  have s0: "0 \<le> ?s" by (simp add: label_start_def)
  show ?case
  proof (cases "?e > width \<or> ?s \<le> lastEnd + 1")
    case True
    then have p: "placed_labels width (t # rest) lastEnd = placed_labels width rest lastEnd" by auto
    have l: "place_loop width (t # rest) line lastEnd = place_loop width rest line lastEnd"
      using True by (auto simp: Let_def label_start_def)
    show ?thesis unfolding p l using Cons.IH[OF Cons.prems] by blast
  next
    case False
    then have p: "placed_labels width (t # rest) lastEnd
                 = (?s, label t) # placed_labels width rest ?e"
      by auto
    let ?line1 = "take (nat ?s) line @ label t @ drop (nat ?s + length (label t)) line"
    have fits: "nat ?s + 0 + length (label t) \<le> length line"
      using False s0 Cons.prems by linarith
    have w: "write_label line ?s 0 (label t) = Inr ?line1"
      using write_label_ok[OF s0 fits] by simp
    have len1: "length ?line1 = length line" using fits by simp
    have l: "place_loop width (t # rest) line lastEnd = place_loop width rest ?line1 ?e"
      using False w by (auto simp: Let_def label_start_def)
    obtain line' lastEnd' where ih:
      "place_loop width rest ?line1 ?e = Inr (line', lastEnd')"
      "length line' = length ?line1"
      "\<forall>j < length ?line1. \<not> covered j (placed_labels width rest ?e) \<longrightarrow> line' ! j = ?line1 ! j"
      "\<forall>(s, l) \<in> set (placed_labels width rest ?e). \<forall>k < length l. line' ! (nat s + k) = l ! k"
      using Cons.IH[of ?line1 ?e] len1 Cons.prems by auto
    have after: "?e + 2 \<le> s" if "(s, l) \<in> set (placed_labels width rest ?e)" for s l
      using placed_labels_after[OF that] by simp
    have fits': "nat ?s + length (label t) \<le> length line" using fits by simp
    have line1_in: "?line1 ! (nat ?s + k) = label t ! k" if "k < length (label t)" for k
      using splice_nth_in[OF that fits'] .
    have line1_out: "?line1 ! j = line ! j"
      if "j < length line" "\<not> (?s \<le> int j \<and> int j < ?e)" for j
    proof (cases "int j < ?s")
      case True
      then have "j < nat ?s" by linarith
      then show ?thesis using splice_nth_before[OF _ fits'] by blast
    next
      case False
      then have "nat ?s + length (label t) \<le> j" using that(2) s0 by linarith
      then show ?thesis using splice_nth_after[OF _ that(1)] by blast
    qed
    have notcov: "\<not> covered (nat ?s + k) (placed_labels width rest ?e)" if "k < length (label t)" for k
      using after that s0 by (fastforce simp: covered_def list_ex_iff)
    have A: "\<forall>j < length line. \<not> covered j ((?s, label t) # placed_labels width rest ?e) \<longrightarrow> line' ! j = line ! j"
      using ih(3) len1 line1_out by (auto simp: covered_def)
    have B: "\<forall>(s, l) \<in> set ((?s, label t) # placed_labels width rest ?e). \<forall>k < length l. line' ! (nat s + k) = l ! k"
    proof -
      have "line' ! (nat ?s + k) = label t ! k" if k: "k < length (label t)" for k
      proof -
        have "nat ?s + k < length ?line1" using k fits len1 by linarith
        then have "line' ! (nat ?s + k) = ?line1 ! (nat ?s + k)" using ih(3) notcov[OF k] by blast
        then show ?thesis using line1_in[OF k] by simp
      qed
      then show ?thesis using ih(4) by auto
    qed
    show ?thesis unfolding p l using ih(1,2) len1 A B by auto
  qed
qed

lemma tick_loop_filter:
  "tick_loop ps pad is acc
     = acc @ map (\<lambda>i. \<lparr>pos = pad + int i, label = Format_15_04 (Time (ps ! i))\<rparr>)
                 (filter (isMinuteTick ps) is)"
  by (induction "is" arbitrary: acc) (auto simp: isMinuteTick_def Let_def)

lemma timeline_ticks_filter:
  "timeline_ticks points width
     = map (\<lambda>i. \<lparr>pos = width - int (length (rendered_points points width)) + int i,
                  label = Format_15_04 (Time (rendered_points points width ! i))\<rparr>)
           (filter (isMinuteTick (rendered_points points width))
                   [0..<length (rendered_points points width)])"
  unfolding timeline_ticks_def Let_def rendered_points_def[symmetric]
  by (simp add: tick_loop_filter)

lemma timeline_ticks_sorted:
  "sorted_wrt (\<lambda>a b. pos a < pos b) (timeline_ticks points width)"
proof -
  have "sorted_wrt (<) (filter (isMinuteTick (rendered_points points width))
                   [0..<length (rendered_points points width)])"
    by (intro sorted_wrt_filter) simp
  then show ?thesis
    unfolding timeline_ticks_filter by (simp add: sorted_wrt_map)
qed

lemma placed_labels_snoc:
  "placed_labels w (xs @ [t]) le =
     (if label_start t + int (length (label t)) > w
         \<or> label_start t \<le> (if placed_labels w xs le = [] then le
                              else fst (last (placed_labels w xs le))
                                   + int (length (snd (last (placed_labels w xs le))))) + 1
      then placed_labels w xs le
      else placed_labels w xs le @ [(label_start t, label t)])"
proof (induction xs arbitrary: le)
  case Nil
  then show ?case by simp
next
  case (Cons x xs)
  show ?case
  proof (cases "label_start x + int (length (label x)) > w \<or> label_start x \<le> le + 1")
    case True
    then have "placed_labels w ((x # xs) @ [t]) le = placed_labels w (xs @ [t]) le"
      and "placed_labels w (x # xs) le = placed_labels w xs le" by auto
    then show ?thesis using Cons.IH[of le] by simp
  next
    case False
    let ?e = "label_start x + int (length (label x))"
    from False have a: "placed_labels w ((x # xs) @ [t]) le
                 = (label_start x, label x) # placed_labels w (xs @ [t]) ?e"
      and b: "placed_labels w (x # xs) le = (label_start x, label x) # placed_labels w xs ?e"
      by auto
    show ?thesis unfolding a b using Cons.IH[of ?e] by auto
  qed
qed

lemma RenderTimeline_ok:
  assumes "0 < width" and "points \<noteq> []"
  shows "\<exists>line'. RenderTimeline points width = Inr (Render (Foreground 239) line')
           \<and> length line' = nat width
           \<and> (\<forall>j < nat width. \<not> covered j (placed_labels width (timeline_ticks points width) (- 1))
                  \<longrightarrow> line' ! j = CHR '' '')
           \<and> (\<forall>(s, l) \<in> set (placed_labels width (timeline_ticks points width) (- 1)).
                 \<forall>k < length l. line' ! (nat s + k) = l ! k)"
proof -
  let ?line = "replicate (nat width) CHR '' ''"
  have len: "length ?line = nat width" by simp
  obtain line' lastEnd' where pl:
    "place_loop width (timeline_ticks points width) ?line (- 1) = Inr (line', lastEnd')"
    "length line' = length ?line"
    "\<forall>j < length ?line. \<not> covered j (placed_labels width (timeline_ticks points width) (- 1))
         \<longrightarrow> line' ! j = ?line ! j"
    "\<forall>(s, l) \<in> set (placed_labels width (timeline_ticks points width) (- 1)).
                 \<forall>k < length l. line' ! (nat s + k) = l ! k"
    using place_loop_line[OF len, of "timeline_ticks points width" "- 1"] by blast
  have r: "RenderTimeline points width = Inr (Render (Foreground 239) line')"
    using assms pl(1) unfolding RenderTimeline_def timeline_ticks_def Let_def by simp
  have sp: "\<forall>j < nat width. \<not> covered j (placed_labels width (timeline_ticks points width) (- 1))
                  \<longrightarrow> line' ! j = CHR '' ''"
    using pl(3) by simp
  show ?thesis using r pl(2) sp pl(4) by auto
qed

text \<open>
  Claim C5, amended. Let \<open>ticks\<close> be the ticks of the rendered points (found by the rule
  of the sparkline, in increasing column order) and \<open>P\<close> the labels that
  \<^verbatim>\<open>RenderTimeline\<close> writes. Every label of \<open>P\<close> starts at a column \<open>\<ge> 0\<close> and ends
  within the width; of two labels of \<open>P\<close> the later starts at least two columns after
  the end of the earlier, so their column ranges are disjoint; the ticks are handled
  in order, and a candidate that follows an already placed label is rejected exactly
  when its clamped start is \<open>\<le>\<close> the end column of the last placed label \<open>+ 1\<close> or its
  range would pass the right edge; and the line returned shows every label of \<open>P\<close> at
  its columns.
\<close>

theorem timeline_labels:
  "(\<forall>(s, l) \<in> set (placed_labels width (timeline_ticks points width) (- 1)).
       0 \<le> s \<and> s + int (length l) \<le> width)
   \<and> (\<forall>i j. i < j \<and> j < length (placed_labels width (timeline_ticks points width) (- 1)) \<longrightarrow>
         fst (placed_labels width (timeline_ticks points width) (- 1) ! i)
           + int (length (snd (placed_labels width (timeline_ticks points width) (- 1) ! i))) + 2
         \<le> fst (placed_labels width (timeline_ticks points width) (- 1) ! j)
         \<and> {fst (placed_labels width (timeline_ticks points width) (- 1) ! i) ..<
              fst (placed_labels width (timeline_ticks points width) (- 1) ! i)
                + int (length (snd (placed_labels width (timeline_ticks points width) (- 1) ! i)))}
           \<inter> {fst (placed_labels width (timeline_ticks points width) (- 1) ! j) ..<
              fst (placed_labels width (timeline_ticks points width) (- 1) ! j)
                + int (length (snd (placed_labels width (timeline_ticks points width) (- 1) ! j)))}
           = {})
   \<and> sorted_wrt (\<lambda>a b. pos a < pos b) (timeline_ticks points width)
   \<and> (\<forall>k < length (timeline_ticks points width).
         placed_labels width (take k (timeline_ticks points width)) (- 1) \<noteq> [] \<longrightarrow>
         placed_labels width (take (Suc k) (timeline_ticks points width)) (- 1)
           = (if label_start (timeline_ticks points width ! k)
                   \<le> fst (last (placed_labels width (take k (timeline_ticks points width)) (- 1)))
                      + int (length (snd (last (placed_labels width
                                                  (take k (timeline_ticks points width)) (- 1))))) + 1
                 \<or> label_start (timeline_ticks points width ! k)
                      + int (length (label (timeline_ticks points width ! k))) > width
              then placed_labels width (take k (timeline_ticks points width)) (- 1)
              else placed_labels width (take k (timeline_ticks points width)) (- 1)
                     @ [(label_start (timeline_ticks points width ! k),
                         label (timeline_ticks points width ! k))]))
   \<and> (0 < width \<and> points \<noteq> [] \<longrightarrow>
        (\<exists>out. RenderTimeline points width = Inr out
           \<and> (\<forall>(s, l) \<in> set (placed_labels width (timeline_ticks points width) (- 1)).
                 \<forall>k < length l. out ! (nat s + k) = (l ! k, Foreground 239))))"
proof (intro conjI)
  let ?ticks = "timeline_ticks points width"
  let ?P = "placed_labels width ?ticks (- 1)"
  show "\<forall>(s, l) \<in> set ?P. 0 \<le> s \<and> s + int (length l) \<le> width"
    using placed_labels_after by fastforce
  show "\<forall>i j. i < j \<and> j < length ?P \<longrightarrow>
         fst (?P ! i) + int (length (snd (?P ! i))) + 2 \<le> fst (?P ! j)
         \<and> {fst (?P ! i) ..< fst (?P ! i) + int (length (snd (?P ! i)))}
           \<inter> {fst (?P ! j) ..< fst (?P ! j) + int (length (snd (?P ! j)))} = {}"
  proof (intro allI impI)
    fix i j assume ij: "i < j \<and> j < length ?P"
    have "fst (?P ! i) + int (length (snd (?P ! i))) + 2 \<le> fst (?P ! j)"
      using placed_labels_gapped[of width ?ticks "- 1"] ij
      by (simp add: sorted_wrt_iff_nth_less)
    then show "fst (?P ! i) + int (length (snd (?P ! i))) + 2 \<le> fst (?P ! j)
         \<and> {fst (?P ! i) ..< fst (?P ! i) + int (length (snd (?P ! i)))}
           \<inter> {fst (?P ! j) ..< fst (?P ! j) + int (length (snd (?P ! j)))} = {}"
      by auto
  qed
  show "sorted_wrt (\<lambda>a b. pos a < pos b) ?ticks" by (rule timeline_ticks_sorted)
  show "\<forall>k < length ?ticks.
         placed_labels width (take k ?ticks) (- 1) \<noteq> [] \<longrightarrow>
         placed_labels width (take (Suc k) ?ticks) (- 1)
           = (if label_start (?ticks ! k)
                   \<le> fst (last (placed_labels width (take k ?ticks) (- 1)))
                      + int (length (snd (last (placed_labels width (take k ?ticks) (- 1))))) + 1
                 \<or> label_start (?ticks ! k) + int (length (label (?ticks ! k))) > width
              then placed_labels width (take k ?ticks) (- 1)
              else placed_labels width (take k ?ticks) (- 1)
                     @ [(label_start (?ticks ! k), label (?ticks ! k))])"
  proof (intro allI impI)
    fix k assume k: "k < length ?ticks"
      and ne: "placed_labels width (take k ?ticks) (- 1) \<noteq> []"
    have tk: "take (Suc k) ?ticks = take k ?ticks @ [?ticks ! k]"
      using k by (simp add: take_Suc_conv_app_nth)
    show "placed_labels width (take (Suc k) ?ticks) (- 1)
           = (if label_start (?ticks ! k)
                   \<le> fst (last (placed_labels width (take k ?ticks) (- 1)))
                      + int (length (snd (last (placed_labels width (take k ?ticks) (- 1))))) + 1
                 \<or> label_start (?ticks ! k) + int (length (label (?ticks ! k))) > width
              then placed_labels width (take k ?ticks) (- 1)
              else placed_labels width (take k ?ticks) (- 1)
                     @ [(label_start (?ticks ! k), label (?ticks ! k))])"
      unfolding tk placed_labels_snoc using ne by auto
  qed
  show "0 < width \<and> points \<noteq> [] \<longrightarrow>
        (\<exists>out. RenderTimeline points width = Inr out
           \<and> (\<forall>(s, l) \<in> set ?P. \<forall>k < length l. out ! (nat s + k) = (l ! k, Foreground 239)))"
  proof
    assume a: "0 < width \<and> points \<noteq> []"
    then obtain line' where l:
      "RenderTimeline points width = Inr (Render (Foreground 239) line')"
      "length line' = nat width"
      "\<forall>(s, l) \<in> set ?P. \<forall>k < length l. line' ! (nat s + k) = l ! k"
      using RenderTimeline_ok[of width points] by blast
    have "Render (Foreground 239) line' ! (nat s + k) = (l ! k, Foreground 239)"
      if "(s, l) \<in> set ?P" "k < length l" for s l k
    proof -
      have "s + int (length l) \<le> width" "0 \<le> s" using placed_labels_after[OF that(1)] by auto
      then have "nat s + k < length line'" using that(2) l(2) by linarith
      then show ?thesis using l(3) that by (auto simp: Render_def)
    qed
    then show "\<exists>out. RenderTimeline points width = Inr out
           \<and> (\<forall>(s, l) \<in> set ?P. \<forall>k < length l. out ! (nat s + k) = (l ! k, Foreground 239))"
      using l(1) by blast
  qed
qed

lemma two_label_placed:
  "placed_labels 14 (timeline_ticks two_label_points 14) (- 1) = [(1, ''00:00''), (8, ''00:01'')]"
  by code_simp

theorem timeline_labels_witness:
  "(0::int) < 14 \<and> two_label_points \<noteq> []
   \<and> placed_labels 14 (timeline_ticks two_label_points 14) (- 1) = [(1, ''00:00''), (8, ''00:01'')]
   \<and> (\<exists>out. RenderTimeline two_label_points 14 = Inr out
          \<and> out ! 1 = (CHR ''0'', Foreground 239) \<and> out ! 8 = (CHR ''0'', Foreground 239)
          \<and> out ! 12 = (CHR ''1'', Foreground 239))"
proof -
  have w: "0 < (14::int) \<and> two_label_points \<noteq> []" by (simp add: two_label_points_def)
  have "0 < (14::int) \<and> two_label_points \<noteq> [] \<longrightarrow>
        (\<exists>out. RenderTimeline two_label_points 14 = Inr out
           \<and> (\<forall>(s, l) \<in> set (placed_labels 14 (timeline_ticks two_label_points 14) (- 1)).
                 \<forall>k < length l. out ! (nat s + k) = (l ! k, Foreground 239)))"
    using timeline_labels[of 14 two_label_points] by (elim conjE)
  with w obtain out where out: "RenderTimeline two_label_points 14 = Inr out"
     "\<forall>(s, l) \<in> set (placed_labels 14 (timeline_ticks two_label_points 14) (- 1)).
                 \<forall>k < length l. out ! (nat s + k) = (l ! k, Foreground 239)"
    by blast
  have L: "\<forall>(s, l) \<in> set [(1::int, ''00:00''), (8, ''00:01'')].
                 \<forall>k < length l. out ! (nat s + k) = (l ! k, Foreground 239)"
    using out(2) unfolding two_label_placed .
  have L1: "\<forall>k < length ''00:00''. out ! (nat 1 + k) = (''00:00'' ! k, Foreground 239)"
    using L by simp
  have L8: "\<forall>k < length ''00:01''. out ! (nat 8 + k) = (''00:01'' ! k, Foreground 239)"
    using L by simp
  have a: "out ! 1 = (CHR ''0'', Foreground 239)"
    using L1[rule_format, of 0] by simp
  have b: "out ! 8 = (CHR ''0'', Foreground 239)"
    using L8[rule_format, of 0] by simp
  have c: "out ! 12 = (CHR ''1'', Foreground 239)"
    using L8[rule_format, of 4] by simp
  show ?thesis using w out(1) a b c two_label_placed by simp
qed

text \<open>
  Claim C5 as stated fails. With width 11 the first tick (column 3) gets its label at
  columns 1 to 5, so the end column kept by the loop is 6; the candidate of the second
  tick (column 10) starts at 8, which is not \<open>\<le> 6 + 1\<close>, and it is rejected all the same,
  because its range would end at 13, beyond the width.
\<close>

theorem timeline_labels_counterexample:
  "timeline_ticks right_edge_points 11
     = [\<lparr>pos = 3, label = ''00:00''\<rparr>, \<lparr>pos = 10, label = ''00:01''\<rparr>]
   \<and> placed_labels 11 [\<lparr>pos = 3, label = ''00:00''\<rparr>] (- 1) = [(1, ''00:00'')]
   \<and> label_start \<lparr>pos = 10, label = ''00:01''\<rparr> = 8
   \<and> \<not> (8::int) \<le> (1 + int (length ''00:00'')) + 1
   \<and> placed_labels 11 (timeline_ticks right_edge_points 11) (- 1) = [(1, ''00:00'')]
   \<and> RenderTimeline right_edge_points 11 = Inr (Render (Foreground 239) '' 00:00     '')"
  by code_simp

text \<open>
  Claim C6, amended. For \<open>width > 0\<close> and a non-empty point sequence
  \<^verbatim>\<open>RenderTimeline\<close> returns a line of exactly \<open>width\<close> characters, with a space at
  every column that no placed label covers. For the empty point sequence it returns
  the empty string.
\<close>

theorem timeline_width:
  "(0 < width \<and> points \<noteq> [] \<longrightarrow>
      (\<exists>out. RenderTimeline points width = Inr out
         \<and> length out = nat width
         \<and> (\<forall>j < nat width.
               \<not> covered j (placed_labels width (timeline_ticks points width) (- 1))
               \<longrightarrow> out ! j = (CHR '' '', Foreground 239))))
   \<and> RenderTimeline [] width = Inr []"
proof (intro conjI impI)
  assume a: "0 < width \<and> points \<noteq> []"
  then obtain line' where l:
      "RenderTimeline points width = Inr (Render (Foreground 239) line')"
      "length line' = nat width"
      "\<forall>j < nat width. \<not> covered j (placed_labels width (timeline_ticks points width) (- 1))
                  \<longrightarrow> line' ! j = CHR '' ''"
    using RenderTimeline_ok[of width points] by blast
  have "length (Render (Foreground 239) line') = nat width" using l(2) by (simp add: Render_def)
  moreover have "\<forall>j < nat width.
               \<not> covered j (placed_labels width (timeline_ticks points width) (- 1))
               \<longrightarrow> Render (Foreground 239) line' ! j = (CHR '' '', Foreground 239)"
    using l(2,3) by (simp add: Render_def)
  ultimately show "\<exists>out. RenderTimeline points width = Inr out
         \<and> length out = nat width
         \<and> (\<forall>j < nat width.
               \<not> covered j (placed_labels width (timeline_ticks points width) (- 1))
               \<longrightarrow> out ! j = (CHR '' '', Foreground 239))"
    using l(1) by blast
next
  show "RenderTimeline [] width = Inr []" by (simp add: RenderTimeline_def)
qed

theorem timeline_width_witness:
  "(0::int) < 14 \<and> two_label_points \<noteq> []
   \<and> (\<exists>out. RenderTimeline two_label_points 14 = Inr out \<and> length out = 14
          \<and> out ! 0 = (CHR '' '', Foreground 239) \<and> out ! 7 = (CHR '' '', Foreground 239))
   \<and> RenderTimeline [] 14 = Inr []"
proof -
  have w: "0 < (14::int) \<and> two_label_points \<noteq> []" by (simp add: two_label_points_def)
  have th: "(0 < (14::int) \<and> two_label_points \<noteq> [] \<longrightarrow>
      (\<exists>out. RenderTimeline two_label_points 14 = Inr out
         \<and> length out = nat 14
         \<and> (\<forall>j < nat 14.
               \<not> covered j (placed_labels 14 (timeline_ticks two_label_points 14) (- 1))
               \<longrightarrow> out ! j = (CHR '' '', Foreground 239))))
   \<and> RenderTimeline [] 14 = Inr []"
    by (rule timeline_width[of 14 two_label_points])
  with w obtain out where out: "RenderTimeline two_label_points 14 = Inr out"
     "length out = nat 14"
     "\<forall>j < nat 14. \<not> covered j (placed_labels 14 (timeline_ticks two_label_points 14) (- 1))
               \<longrightarrow> out ! j = (CHR '' '', Foreground 239)"
    by blast
  have "out ! 0 = (CHR '' '', Foreground 239)"
    using out(3) unfolding two_label_placed by (simp add: covered_def)
  moreover have "out ! 7 = (CHR '' '', Foreground 239)"
    using out(3) unfolding two_label_placed by (simp add: covered_def)
  ultimately show ?thesis using w out(1,2) th by simp
qed

text \<open>
  Claim C6 as stated fails for the empty point sequence: the result is the empty
  string, not a line of \<open>width\<close> characters.
\<close>

theorem timeline_width_counterexample:
  "RenderTimeline [] 5 = Inr [] \<and> length ([] :: (char \<times> style) list) \<noteq> nat 5"
  by (simp add: RenderTimeline_def)


section \<open>Properties of the threshold scale\<close>

lemma threshold_bar_cells:
  assumes w: "0 < width"
  shows "\<exists>bar. threshold_bar rangeMin span_v high crit hasHigh hasCrit width = Inr bar
           \<and> length bar = nat width
           \<and> (\<forall>i < nat width. bar ! i =
                 (if (hasHigh \<and> high > rangeMin \<and> scale_pos width high rangeMin span_v = int i)
                     \<or> (hasCrit \<and> crit > rangeMin \<and> scale_pos width crit rangeMin span_v = int i)
                  then markerRune else dotRune))"
proof -
  let ?bar0 = "replicate (nat width) dotRune"
  let ?ph = "scale_pos width high rangeMin span_v"
  let ?pc = "scale_pos width crit rangeMin span_v"
  let ?H = "hasHigh \<and> high > rangeMin \<and> 0 \<le> ?ph \<and> ?ph < width"
  let ?C = "hasCrit \<and> crit > rangeMin \<and> 0 \<le> ?pc \<and> ?pc < width"
  let ?bar1 = "if ?H then ?bar0[nat ?ph := markerRune] else ?bar0"
  let ?bar2 = "if ?C then ?bar1[nat ?pc := markerRune] else ?bar1"
  have l1: "length ?bar1 = nat width" by simp
  have tb: "threshold_bar rangeMin span_v high crit hasHigh hasCrit width = Inr ?bar2"
    using w by (auto simp: threshold_bar_def Let_def store_def)
  have l2: "length ?bar2 = nat width" by simp
  have cells: "?bar2 ! i =
                 (if (hasHigh \<and> high > rangeMin \<and> ?ph = int i)
                     \<or> (hasCrit \<and> crit > rangeMin \<and> ?pc = int i)
                  then markerRune else dotRune)" if i: "i < nat width" for i
  proof -
    have b1: "?bar1 ! i = (if hasHigh \<and> high > rangeMin \<and> ?ph = int i then markerRune else dotRune)"
      using i by (auto simp: nth_list_update)
    have "?bar2 ! i = (if ?C \<and> nat ?pc = i then markerRune else ?bar1 ! i)"
      using i l1 by (auto simp: nth_list_update simp del: length_list_update)
    also have "(?C \<and> nat ?pc = i) = (hasCrit \<and> crit > rangeMin \<and> ?pc = int i)"
      using i by auto
    finally show ?thesis using b1 by auto
  qed
  show ?thesis using tb l2 cells by blast
qed

lemma scale_cell_single:
  "\<exists>c. scale_cell current rangeMin span_v high crit hasHigh hasCrit width curPos i ch = [c]
       \<and> fst c = (if i = curPos then currentRune else ch)"
  by (auto simp: scale_cell_def Let_def Render_def)

lemma concat_map_single:
  "(\<forall>x \<in> set xs. \<exists>c. f x = [c]) \<Longrightarrow> concat (map f xs) = map (\<lambda>x. hd (f x)) xs"
  by (induction xs) auto

lemma RenderThresholdScale_cells:
  assumes w: "0 < width"
    and tb: "threshold_bar rangeMin (range_span rangeMin rangeMax)
               high crit hasHigh hasCrit width = Inr bar"
    and lb: "length bar = nat width"
  shows "\<exists>out. RenderThresholdScale current rangeMin rangeMax high crit hasHigh hasCrit width = Inr out
           \<and> length out = nat width
           \<and> (\<forall>i < nat width. fst (out ! i) = currentRune \<or> fst (out ! i) = bar ! i)"
proof -
  let ?S = "range_span rangeMin rangeMax"
  let ?c0 = "scale_pos width current rangeMin ?S"
  let ?c1 = "if ?c0 < 0 then 0 else ?c0"
  let ?c2 = "if ?c1 \<ge> width then width - 1 else ?c1"
  let ?f = "\<lambda>i. scale_cell current rangeMin ?S high crit hasHigh hasCrit width ?c2 (int i) (bar ! i)"
  let ?out = "map (\<lambda>i. hd (?f i)) [0..<length bar]"
  have r: "RenderThresholdScale current rangeMin rangeMax high crit hasHigh hasCrit width
             = Inr (concat (map ?f [0..<length bar]))"
  proof -
    have nw: "\<not> width \<le> 0" using w by simp
    show ?thesis
      unfolding RenderThresholdScale_def Let_def by (simp only: nw if_False tb sum.case)
  qed
  have c: "concat (map ?f [0..<length bar]) = ?out"
    by (rule concat_map_single) (use scale_cell_single in blast)
  have "fst (?out ! i) = currentRune \<or> fst (?out ! i) = bar ! i" if "i < nat width" for i
    using that lb
      scale_cell_single[of current rangeMin ?S high crit hasHigh hasCrit width ?c2 "int i" "bar ! i"]
    by (auto simp del: upt_Suc)
  then show ?thesis using r c lb by auto
qed

text \<open>
  The columns of the sample input: width 5, range \<open>[0, 16]\<close>, thresholds 15 and 12,
  current value 16. The positions are \<open>4 * 15 / 16 = 3.75\<close>, \<open>4 * 12 / 16 = 3\<close> and
  \<open>4 * 16 / 16 = 4\<close>.
\<close>

lemma range_span_0_16: "range_span 0 16 = Fin 16"
  by (simp add: range_span_def f64_of_numeral)

lemma scale_pos_15: "scale_pos 5 15 0 (Fin 16) = 3"
proof -
  have "\<lfloor>15 / 4 :: real\<rfloor> = 3" by (simp add: floor_eq_iff)
  then show ?thesis
    by (simp add: scale_pos_def float64_of_int_exact f64_of_numeral f64_of_15_4 go_int_def)
qed

lemma scale_pos_12: "scale_pos 5 12 0 (Fin 16) = 3"
  by (simp add: scale_pos_def float64_of_int_exact f64_of_numeral go_int_def)

lemma scale_pos_16: "scale_pos 5 16 0 (Fin 16) = 4"
  by (simp add: scale_pos_def float64_of_int_exact f64_of_numeral go_int_def)

text \<open>
  The column of the threshold \<open>15.7\<close> at width 4 and range \<open>[0, 15.7]\<close>: the product
  \<open>3 * 15.7\<close> is rounded down to float64, the quotient by \<open>15.7\<close> is the float64 just below
  \<open>3\<close>, and the column is 2.
\<close>

lemma f64_of_15_7: "f64_of_real float_15_7 = Fin float_15_7"
  using f64_of_real_eval[of 3 float_15_7]
  by (simp add: float_15_7_def pow2_def round_even_def MaxFloat64_def)

lemma f64_of_3_times_15_7:
  "f64_of_real (3 * float_15_7) = Fin (1657183925383987 / 35184372088832)"
  using f64_of_real_eval[of 5 "3 * float_15_7"]
  by (simp add: float_15_7_def pow2_def round_even_def MaxFloat64_def)

lemma f64_of_quotient_15_7:
  "f64_of_real (1657183925383987 / 35184372088832 / float_15_7)
     = Fin (6755399441055743 / 2251799813685248)"
  using f64_of_real_eval[of 1 "1657183925383987 / 35184372088832 / float_15_7"]
  by (simp add: float_15_7_def pow2_def round_even_def MaxFloat64_def)

lemma range_span_0_15_7: "range_span 0 float_15_7 = Fin float_15_7"
proof -
  have "\<not> float_15_7 \<le> 0" by (simp add: float_15_7_def)
  then show ?thesis by (simp add: range_span_def f64_of_15_7)
qed

lemma scale_pos_15_7: "scale_pos 4 float_15_7 0 (Fin float_15_7) = 2"
proof -
  have f: "\<lfloor>6755399441055743 / 2251799813685248 :: real\<rfloor> = 2" by (simp add: floor_eq_iff)
  have z: "float_15_7 \<noteq> 0" by (simp add: float_15_7_def)
  show ?thesis
    using f z f64_of_quotient_15_7
    by (simp add: scale_pos_def float64_of_int_exact f64_of_15_7 f64_of_3_times_15_7 go_int_def)
qed

text \<open>
  Claim C9, amended. In \<^verbatim>\<open>RenderThresholdScale\<close> the column of a threshold marker is
  the float64 value of \<open>(width - 1) * (threshold - rangeMin) / span\<close> (the difference,
  the product and the quotient each rounded to float64) truncated toward zero by
  \<^verbatim>\<open>int()\<close>, not rounded to the nearest integer, with \<open>span\<close> the float64 difference
  \<open>rangeMax - rangeMin\<close>, replaced by \<open>1\<close> when it is \<open>\<le> 0\<close>. Column \<open>i\<close> of the
  bar holds a marker if and only if a threshold is present, strictly greater than
  \<open>rangeMin\<close>, and its column is \<open>i\<close>; every other column holds the neutral dot; and
  the rendered bar shows the bar's glyph at every column but that of the current-value
  marker.
\<close>

theorem threshold_markers:
  assumes "0 < width"
  shows "\<exists>bar out.
      threshold_bar rangeMin (range_span rangeMin rangeMax) high crit hasHigh hasCrit width = Inr bar
    \<and> RenderThresholdScale current rangeMin rangeMax high crit hasHigh hasCrit width = Inr out
    \<and> length bar = nat width \<and> length out = nat width
    \<and> (\<forall>i < nat width.
          (bar ! i = markerRune)
          = ((hasHigh \<and> high > rangeMin
                \<and> go_int (f_div (f_mul (float64_of_int (width - 1))
                                        (f_sub (Fin high) (Fin rangeMin)))
                                 (let d = f_sub (Fin rangeMax) (Fin rangeMin)
                                  in if f_le d (Fin 0) then Fin 1 else d)) = int i)
             \<or> (hasCrit \<and> crit > rangeMin
                \<and> go_int (f_div (f_mul (float64_of_int (width - 1))
                                        (f_sub (Fin crit) (Fin rangeMin)))
                                 (let d = f_sub (Fin rangeMax) (Fin rangeMin)
                                  in if f_le d (Fin 0) then Fin 1 else d)) = int i)))
    \<and> (\<forall>i < nat width. bar ! i \<noteq> markerRune \<longrightarrow> bar ! i = dotRune)
    \<and> (\<forall>i < nat width. fst (out ! i) = currentRune \<or> fst (out ! i) = bar ! i)"
proof -
  let ?S = "range_span rangeMin rangeMax"
  obtain bar where bar:
    "threshold_bar rangeMin ?S high crit hasHigh hasCrit width = Inr bar"
    "length bar = nat width"
    "\<forall>i < nat width. bar ! i =
                 (if (hasHigh \<and> high > rangeMin \<and> scale_pos width high rangeMin ?S = int i)
                     \<or> (hasCrit \<and> crit > rangeMin \<and> scale_pos width crit rangeMin ?S = int i)
                  then markerRune else dotRune)"
    using threshold_bar_cells[OF assms, of rangeMin ?S high crit hasHigh hasCrit] by blast
  obtain out where out:
    "RenderThresholdScale current rangeMin rangeMax high crit hasHigh hasCrit width = Inr out"
    "length out = nat width"
    "\<forall>i < nat width. fst (out ! i) = currentRune \<or> fst (out ! i) = bar ! i"
    using RenderThresholdScale_cells[OF assms bar(1,2)] by blast
  have ne: "markerRune \<noteq> dotRune" by (simp add: markerRune_def dotRune_def)
  have sp: "scale_pos width x rangeMin ?S
              = go_int (f_div (f_mul (float64_of_int (width - 1)) (f_sub (Fin x) (Fin rangeMin)))
                              (let d = f_sub (Fin rangeMax) (Fin rangeMin)
                               in if f_le d (Fin 0) then Fin 1 else d))" for x
    by (simp only: scale_pos_def range_span_def)
  have m: "(bar ! i = markerRune)
          = ((hasHigh \<and> high > rangeMin \<and> scale_pos width high rangeMin ?S = int i)
             \<or> (hasCrit \<and> crit > rangeMin \<and> scale_pos width crit rangeMin ?S = int i))"
    if "i < nat width" for i
    using bar(3) that ne by (metis (no_types, lifting))
  have d: "bar ! i \<noteq> markerRune \<longrightarrow> bar ! i = dotRune" if "i < nat width" for i
    using bar(3) that by metis
  show ?thesis using bar(1,2) out m[unfolded sp] d by blast
qed

theorem threshold_markers_witness:
  "(0::int) < 5
   \<and> threshold_bar 0 (range_span 0 16) 15 12 True True 5
       = Inr [dotRune, dotRune, dotRune, markerRune, dotRune]
   \<and> go_int (f_div (f_mul (float64_of_int (5 - 1)) (f_sub (Fin 15) (Fin 0)))
                    (let d = f_sub (Fin 16) (Fin 0) in if f_le d (Fin 0) then Fin 1 else d)) = 3
   \<and> go_int (f_div (f_mul (float64_of_int (5 - 1)) (f_sub (Fin 12) (Fin 0)))
                    (let d = f_sub (Fin 16) (Fin 0) in if f_le d (Fin 0) then Fin 1 else d)) = 3
   \<and> (\<exists>out. RenderThresholdScale 0 0 16 15 12 True True 5 = Inr out \<and> length out = 5)"
proof -
  have w: "(0::int) < 5" by simp
  obtain bar out where b:
    "threshold_bar 0 (range_span 0 16) 15 12 True True 5 = Inr bar"
    "RenderThresholdScale 0 0 16 15 12 True True 5 = Inr out"
    "length bar = nat 5" "length out = nat 5"
    using threshold_markers[OF w, of 0 16 15 12 True True 0] by blast
  have e: "threshold_bar 0 (range_span 0 16) 15 12 True True 5
       = Inr [dotRune, dotRune, dotRune, markerRune, dotRune]"
    by (simp add: threshold_bar_def range_span_0_16 scale_pos_15 scale_pos_12 store_def numeral_eq_Suc)
  have c15: "go_int (f_div (f_mul (float64_of_int (5 - 1)) (f_sub (Fin 15) (Fin 0)))
                    (let d = f_sub (Fin 16) (Fin 0) in if f_le d (Fin 0) then Fin 1 else d)) = 3"
    using scale_pos_15 range_span_0_16 by (simp only: scale_pos_def range_span_def)
  have c12: "go_int (f_div (f_mul (float64_of_int (5 - 1)) (f_sub (Fin 12) (Fin 0)))
                    (let d = f_sub (Fin 16) (Fin 0) in if f_le d (Fin 0) then Fin 1 else d)) = 3"
    using scale_pos_12 range_span_0_16 by (simp only: scale_pos_def range_span_def)
  show ?thesis using w b(2,4) e c15 c12 by simp
qed

text \<open>
  Claim C9 as stated fails: with width 5, range \<open>[0, 16]\<close> and a high threshold of 15
  the position is \<open>4 * 15 / 16 = 3.75\<close> (every step exact in float64), which rounds to
  column 4, and the marker is written to column 3. And with width 4, range
  \<open>[0, 15.7]\<close> and a high threshold of \<open>15.7\<close> the formula gives column 3, and the
  marker is written to column 2, the float64 quotient being just below 3.
\<close>

theorem threshold_markers_counterexample:
  "threshold_bar 0 (range_span 0 16) 15 0 True False 5
       = Inr [dotRune, dotRune, dotRune, markerRune, dotRune]
   \<and> f_div (f_mul (float64_of_int (5 - 1)) (f_sub (Fin 15) (Fin 0))) (range_span 0 16)
       = Fin (15 / 4)
   \<and> round (real_of_int (5 - 1) * (15 - 0) / (16 - 0) :: real) = (4::int)
   \<and> markerRune \<noteq> dotRune
   \<and> threshold_bar 0 (range_span 0 float_15_7) float_15_7 0 True False 4
       = Inr [dotRune, dotRune, markerRune, dotRune]
   \<and> round (real_of_int (4 - 1) * (float_15_7 - 0) / (float_15_7 - 0)) = (3::int)
   \<and> RenderThresholdScale 16 0 16 15 0 True False 5
       = Inr [(dotRune, Foreground 236), (dotRune, Foreground 236), (dotRune, Foreground 236),
              (markerRune, Foreground 220), (currentRune, \<lparr>fg = 208, bold = True\<rparr>)]"
proof -
  have tb: "threshold_bar 0 (range_span 0 16) 15 0 True False 5
       = Inr [dotRune, dotRune, dotRune, markerRune, dotRune]"
    by (simp add: threshold_bar_def range_span_0_16 scale_pos_15 store_def numeral_eq_Suc)
  have q: "f_div (f_mul (float64_of_int (5 - 1)) (f_sub (Fin 15) (Fin 0))) (range_span 0 16)
       = Fin (15 / 4)"
    by (simp add: range_span_0_16 float64_of_int_exact f64_of_numeral f64_of_15_4)
  have rd: "round (real_of_int (5 - 1) * (15 - 0) / (16 - 0) :: real) = (4::int)"
    by (simp add: round_def)
  have ne: "markerRune \<noteq> dotRune" "dotRune \<noteq> markerRune"
    by (simp_all add: markerRune_def dotRune_def)
  have rs: "RenderThresholdScale 16 0 16 15 0 True False 5
       = Inr [(dotRune, Foreground 236), (dotRune, Foreground 236), (dotRune, Foreground 236),
              (markerRune, Foreground 220), (currentRune, \<lparr>fg = 208, bold = True\<rparr>)]"
    unfolding RenderThresholdScale_def Let_def
    using tb ne
    by (simp add: range_span_0_16 scale_pos_15 scale_pos_16 scale_cell_def Render_def
          tempColor_def upt_rec)
       (simp add: Foreground_def)
  have p: "0 < float_15_7" by (simp add: float_15_7_def)
  have tb2: "threshold_bar 0 (range_span 0 float_15_7) float_15_7 0 True False 4
       = Inr [dotRune, dotRune, markerRune, dotRune]"
    using p by (simp add: threshold_bar_def range_span_0_15_7 scale_pos_15_7 store_def numeral_eq_Suc)
  have rd2: "round (real_of_int (4 - 1) * (float_15_7 - 0) / (float_15_7 - 0)) = (3::int)"
    using p by simp
  show ?thesis using tb q rd ne(1) tb2 rd2 rs by blast
qed

section \<open>Properties of the nearest-time lookup\<close>











section \<open>Properties of the window builder\<close>

lemma foldl_map_upd:
  "foldl (\<lambda>m p. m(f p \<mapsto> g p)) m0 pts = m0 ++ map_of (rev (map (\<lambda>p. (f p, g p)) pts))"
proof (induction pts arbitrary: m0)
  case Nil
  then show ?case by simp
next
  case (Cons p pts)
  have "foldl (\<lambda>m p. m(f p \<mapsto> g p)) m0 (p # pts)
          = m0(f p \<mapsto> g p) ++ map_of (rev (map (\<lambda>p. (f p, g p)) pts))"
    by (simp only: foldl_Cons Cons.IH)
  also have "\<dots> = m0 ++ ([f p \<mapsto> g p] ++ map_of (rev (map (\<lambda>p. (f p, g p)) pts)))"
    by (simp add: map_add_assoc[symmetric] map_add_upd)
  also have "[f p \<mapsto> g p] ++ map_of (rev (map (\<lambda>p. (f p, g p)) pts))
               = map_of (rev (map (\<lambda>p. (f p, g p)) (p # pts)))"
    by (simp add: map_of_append)
  finally show ?case .
qed

lemma build_tempMap_map_of:
  "build_tempMap pts = map_of (rev (map (\<lambda>p. (Unix (time p), temp p)) pts))"
  by (simp add: build_tempMap_def foldl_map_upd)

lemma build_tempMap_dom:
  "build_tempMap pts k \<noteq> None \<longleftrightarrow> (\<exists>p \<in> set pts. Unix (time p) = k)"
proof -
  have "build_tempMap pts k \<noteq> None \<longleftrightarrow> k \<in> fst ` set (rev (map (\<lambda>p. (Unix (time p), temp p)) pts))"
    unfolding build_tempMap_map_of by (simp only: map_of_eq_None_iff not_not)
  then show ?thesis by force
qed

lemma build_tempMap_value:
  assumes "distinct (map (\<lambda>p. Unix (time p)) pts)" and "p \<in> set pts"
  shows "build_tempMap pts (Unix (time p)) = Some (temp p)"
proof -
  let ?xs = "rev (map (\<lambda>p. (Unix (time p), temp p)) pts)"
  have "map fst ?xs = rev (map (\<lambda>p. Unix (time p)) pts)"
    by (simp add: rev_map comp_def)
  then have d: "distinct (map fst ?xs)" using assms(1) by simp
  have mem: "(Unix (time p), temp p) \<in> set ?xs" using assms(2) by auto
  show ?thesis unfolding build_tempMap_map_of by (rule map_of_is_SomeI[OF d mem])
qed

lemma window_loop_filter:
  assumes "0 \<le> c" and "c < int (length slots)"
  shows "window_loop M c slots n acc
           = acc @ map (\<lambda>j. \<lparr>Temp = the (M (Unix (slots ! j))), Time = slots ! j\<rparr>)
                       (filter (\<lambda>j. M (Unix (slots ! j)) \<noteq> None)
                               [nat (max 0 (c - int n + 1)) ..< nat c + 1])"
proof -
  define R where "R lo = map (\<lambda>j. \<lparr>Temp = the (M (Unix (slots ! j))), Time = slots ! j\<rparr>)
                       (filter (\<lambda>j. M (Unix (slots ! j)) \<noteq> None) [lo ..< nat c + 1])" for lo
  have "window_loop M c slots n acc = acc @ R (nat (max 0 (c - int n + 1)))"
  proof (induction n arbitrary: acc)
    case 0
    have e: "nat (max 0 (c - int 0 + 1)) = nat c + 1" using assms by (simp add: nat_add_distrib)
    have "R (nat c + 1) = []" by (simp add: R_def)
    then show ?case unfolding e by simp
  next
    case (Suc n)
    show ?case
    proof (cases "c - int n < 0")
      case True
      then have r: "nat (max 0 (c - int (Suc n) + 1)) = nat (max 0 (c - int n + 1))" by simp
      have "window_loop M c slots (Suc n) acc = window_loop M c slots n acc"
        using True by simp
      then show ?thesis unfolding r using Suc.IH[of acc] by simp
    next
      case False
      define k where "k = nat (c - int n)"
      have lo: "nat (max 0 (c - int (Suc n) + 1)) = k" using False by (simp add: k_def)
      have lo': "nat (max 0 (c - int n + 1)) = Suc k" using False by (simp add: k_def nat_add_distrib)
      have kc: "k < nat c + 1" using False assms unfolding k_def by linarith
      have rng: "[k ..< nat c + 1] = k # [Suc k ..< nat c + 1]"
        using kc by (rule upt_conv_Cons)
      have Rk: "R k = (if M (Unix (slots ! k)) \<noteq> None
                       then [\<lparr>Temp = the (M (Unix (slots ! k))), Time = slots ! k\<rparr>] else [])
                      @ R (Suc k)"
        unfolding R_def rng by simp
      have inr: "\<not> (c - int n < 0 \<or> c - int n \<ge> int (length slots))"
        using False assms by linarith
      show ?thesis
      proof (cases "M (Unix (slots ! k))")
        case None
        have "window_loop M c slots (Suc n) acc = window_loop M c slots n acc"
          using inr None by (simp add: Let_def k_def)
        also have "\<dots> = acc @ R (Suc k)" using Suc.IH[of acc] by (simp only: lo')
        also have "R (Suc k) = R k" using Rk None by simp
        finally show ?thesis unfolding lo .
      next
        case (Some v)
        have "window_loop M c slots (Suc n) acc
                = window_loop M c slots n (acc @ [\<lparr>Temp = v, Time = slots ! k\<rparr>])"
          using inr Some by (simp add: Let_def k_def)
        also have "\<dots> = (acc @ [\<lparr>Temp = v, Time = slots ! k\<rparr>]) @ R (Suc k)"
          using Suc.IH[of "acc @ [\<lparr>Temp = v, Time = slots ! k\<rparr>]"] by (simp only: lo')
        also have "\<dots> = acc @ R k" using Rk Some by simp
        finally show ?thesis unfolding lo .
      qed
    qed
  qed
  then show ?thesis unfolding R_def .
qed

lemma buildSparkWindow_filter:
  assumes "pts \<noteq> []" and "1 \<le> width" and "0 \<le> c" and "c < int (length slots)"
  shows "buildSparkWindow pts c width slots
           = Inr (map (\<lambda>j. \<lparr>Temp = the (build_tempMap pts (Unix (slots ! j))), Time = slots ! j\<rparr>)
                      (filter (\<lambda>j. build_tempMap pts (Unix (slots ! j)) \<noteq> None)
                              [nat (max 0 (c - width + 1)) ..< nat c + 1]))"
proof -
  let ?M = "build_tempMap pts"
  let ?mk = "\<lambda>j. \<lparr>Temp = the (?M (Unix (slots ! j))), Time = slots ! j\<rparr>"
  let ?has = "\<lambda>j. ?M (Unix (slots ! j)) \<noteq> None"
  let ?lo = "nat (max 0 (c - width + 1))"
  let ?res = "map ?mk (filter ?has [?lo ..< nat c + 1])"
  have ne: "\<not> (length pts = 0 \<or> length slots = 0)" using assms by auto
  have idx: "index slots c = Inr (slots ! nat c)" using assms by (simp add: index_def)
  have w: "window_loop ?M c slots (nat width) [] = ?res"
    using window_loop_filter[OF assms(3,4), of ?M "nat width" "[]"] assms(2) by simp
  have lo_le: "?lo \<le> nat c" using assms by linarith
  have split: "[?lo ..< nat c + 1] = [?lo ..< nat c] @ [nat c]" using lo_le by simp
  have fin: "(case ?M (Unix (slots ! nat c)) of
                       Some tmp \<Rightarrow>
                         (if length ?res = 0 \<or> Time (?res ! (length ?res - 1)) \<noteq> slots ! nat c
                          then ?res @ [\<lparr>Temp = tmp, Time = slots ! nat c\<rparr>]
                          else ?res)
                     | None \<Rightarrow> ?res) = ?res"
  proof (cases "?M (Unix (slots ! nat c))")
    case None
    then show ?thesis by simp
  next
    case (Some v)
    then have "?res = map ?mk (filter ?has [?lo ..< nat c]) @ [?mk (nat c)]"
      unfolding split by simp
    then obtain front where fr: "?res = front @ [?mk (nat c)]" by blast
    have "length ?res \<noteq> 0 \<and> Time (?res ! (length ?res - 1)) = slots ! nat c"
      unfolding fr by simp
    then show ?thesis using Some by (simp only: option.case if_False simp_thms)
  qed
  show ?thesis
    unfolding buildSparkWindow_def Let_def using ne
    by (simp only: if_False idx sum.case w fin)
qed

lemma series_value_unique:
  assumes "sorted_wrt (\<lambda>a b. Before (time a) (time b)) pts"
    and "p \<in> set pts" and "same_instant (time p) s"
  shows "series_value pts s = temp p"
  using assms
proof (induction pts)
  case Nil
  then show ?case by simp
next
  case (Cons q rest)
  show ?case
  proof (cases "same_instant (time q) s")
    case True
    have "p = q"
    proof (rule ccontr)
      assume "p \<noteq> q"
      then have "p \<in> set rest" using Cons.prems(2) by simp
      then have "Before (time q) (time p)" using Cons.prems(1) by simp
      then show False using True Cons.prems(3) by (auto simp: Before_def same_instant_def)
    qed
    then show ?thesis using True by (simp add: series_value_def)
  next
    case False
    then have "p \<noteq> q" using Cons.prems(3) by auto
    then have "p \<in> set rest" using Cons.prems(2) by simp
    moreover have "sorted_wrt (\<lambda>a b. Before (time a) (time b)) rest" using Cons.prems(1) by simp
    ultimately have "series_value rest s = temp p" using Cons.IH Cons.prems(3) by blast
    then show ?thesis using False by (simp add: series_value_def)
  qed
qed

lemma whole_seconds_distinct:
  assumes "sorted_wrt (\<lambda>a b. Before (time a) (time b)) pts"
    and "\<forall>p \<in> set pts. nsec (time p) = 0"
  shows "distinct (map (\<lambda>p. Unix (time p)) pts)"
proof -
  have "sorted_wrt (\<lambda>a b. Unix (time a) < Unix (time b)) pts"
    using assms(1)
  proof (rule sorted_wrt_mono_rel[rotated])
    fix a b assume "a \<in> set pts" "b \<in> set pts" "Before (time a) (time b)"
    then show "Unix (time a) < Unix (time b)"
      using assms(2) by (auto simp: Before_def Unix_def)
  qed
  then have "sorted_wrt (<) (map (\<lambda>p. Unix (time p)) pts)" by (simp add: sorted_wrt_map)
  then show ?thesis by (simp add: strict_sorted_iff)
qed

lemma whole_seconds_has:
  assumes "\<forall>p \<in> set pts. nsec (time p) = 0" and "nsec s = 0"
  shows "build_tempMap pts (Unix s) \<noteq> None \<longleftrightarrow> has_value pts s"
proof -
  have "has_value pts s \<longleftrightarrow> (\<exists>p \<in> set pts. Unix (time p) = Unix s)"
    using assms by (auto simp: has_value_def list_ex_iff same_instant_def Unix_def)
  then show ?thesis by (simp only: build_tempMap_dom)
qed

lemma whole_seconds_value:
  assumes "sorted_wrt (\<lambda>a b. Before (time a) (time b)) pts"
    and "\<forall>p \<in> set pts. nsec (time p) = 0" and "nsec s = 0" and "has_value pts s"
  shows "the (build_tempMap pts (Unix s)) = series_value pts s"
proof -
  obtain p where p: "p \<in> set pts" "same_instant (time p) s"
    using assms(4) by (auto simp: has_value_def list_ex_iff)
  have u: "Unix (time p) = Unix s" using p(2) by (simp add: same_instant_def Unix_def)
  have "build_tempMap pts (Unix (time p)) = Some (temp p)"
    using build_tempMap_value[OF whole_seconds_distinct[OF assms(1,2)] p(1)] .
  moreover have "series_value pts s = temp p"
    using series_value_unique[OF assms(1) p] .
  ultimately show ?thesis using u by simp
qed

text \<open>
  Claim C7, amended: the claim for timestamps that are whole seconds. For a non-empty
  series with strictly increasing timestamps, \<open>width \<ge> 1\<close> and a cursor index within
  \<open>timeSlots\<close>, all timestamps being whole seconds, \<^verbatim>\<open>buildSparkWindow\<close> returns exactly
  one point per slot index in \<open>[max 0 (cursorIdx - width + 1), cursorIdx]\<close> at whose
  timestamp the series has a value, in slot order, with the slot's timestamp and the
  series' value there; the slots without a value are skipped, so the number of points
  is the number of requested slots less the number of missing ones; and when the
  series has a value at the cursor's timestamp, the last point is the cursor's.
\<close>

theorem window_build:
  assumes "pts \<noteq> []"
    and "sorted_wrt (\<lambda>a b. Before (time a) (time b)) pts"
    and "1 \<le> width" and "0 \<le> cursorIdx" and "cursorIdx < int (length timeSlots)"
    and "\<forall>p \<in> set pts. nsec (time p) = 0" and "\<forall>s \<in> set timeSlots. nsec s = 0"
  shows "\<exists>result. buildSparkWindow pts cursorIdx width timeSlots = Inr result
     \<and> result = map (\<lambda>j. \<lparr>Temp = series_value pts (timeSlots ! j), Time = timeSlots ! j\<rparr>)
                    (filter (\<lambda>j. has_value pts (timeSlots ! j))
                            [nat (max 0 (cursorIdx - width + 1)) ..< nat cursorIdx + 1])
     \<and> length result
         + length (filter (\<lambda>j. \<not> has_value pts (timeSlots ! j))
                          [nat (max 0 (cursorIdx - width + 1)) ..< nat cursorIdx + 1])
         = length [nat (max 0 (cursorIdx - width + 1)) ..< nat cursorIdx + 1]
     \<and> (\<forall>p \<in> set pts. \<forall>s. same_instant (time p) s \<longrightarrow> series_value pts s = temp p)
     \<and> (has_value pts (timeSlots ! nat cursorIdx) \<longrightarrow>
          result \<noteq> []
          \<and> last result = \<lparr>Temp = series_value pts (timeSlots ! nat cursorIdx),
                            Time = timeSlots ! nat cursorIdx\<rparr>)"
proof -
  let ?lo = "nat (max 0 (cursorIdx - width + 1))"
  let ?rng = "[?lo ..< nat cursorIdx + 1]"
  let ?mk = "\<lambda>j. \<lparr>Temp = series_value pts (timeSlots ! j), Time = timeSlots ! j\<rparr>"
  let ?has = "\<lambda>j. has_value pts (timeSlots ! j)"
  let ?res = "map ?mk (filter ?has ?rng)"
  have inr: "j < length timeSlots" if "j \<in> set ?rng" for j
    using that assms(4,5) by auto
  have ns: "nsec (timeSlots ! j) = 0" if "j \<in> set ?rng" for j
    using inr[OF that] assms(7) by simp
  have f: "filter (\<lambda>j. build_tempMap pts (Unix (timeSlots ! j)) \<noteq> None) ?rng = filter ?has ?rng"
    by (rule filter_cong[OF refl]) (use whole_seconds_has[OF assms(6)] ns in blast)
  have m: "map (\<lambda>j. \<lparr>Temp = the (build_tempMap pts (Unix (timeSlots ! j))), Time = timeSlots ! j\<rparr>)
               (filter ?has ?rng) = ?res"
  proof (rule map_cong[OF refl])
    fix j assume "j \<in> set (filter ?has ?rng)"
    then have "j \<in> set ?rng" "?has j" by auto
    then show "\<lparr>Temp = the (build_tempMap pts (Unix (timeSlots ! j))), Time = timeSlots ! j\<rparr> = ?mk j"
      using whole_seconds_value[OF assms(2,6) ns] by simp
  qed
  have run: "buildSparkWindow pts cursorIdx width timeSlots = Inr ?res"
    using buildSparkWindow_filter[OF assms(1,3,4,5)] unfolding f m .
  have cnt: "length ?res + length (filter (\<lambda>j. \<not> ?has j) ?rng) = length ?rng"
    using sum_length_filter_compl[of ?has ?rng] by simp
  have uni: "\<forall>p \<in> set pts. \<forall>s. same_instant (time p) s \<longrightarrow> series_value pts s = temp p"
    using series_value_unique[OF assms(2)] by blast
  have lo_le: "?lo \<le> nat cursorIdx" using assms(3,4) by linarith
  have split: "?rng = [?lo ..< nat cursorIdx] @ [nat cursorIdx]" using lo_le by simp
  have cur: "?res \<noteq> [] \<and> last ?res = ?mk (nat cursorIdx)" if "?has (nat cursorIdx)"
  proof -
    have "?res = map ?mk (filter ?has [?lo ..< nat cursorIdx]) @ [?mk (nat cursorIdx)]"
      unfolding split using that by simp
    then obtain front where "?res = front @ [?mk (nat cursorIdx)]" by blast
    then show ?thesis by simp
  qed
  show ?thesis using run cnt uni cur by blast
qed

theorem window_build_witness:
  "gap_series \<noteq> []
   \<and> sorted_wrt (\<lambda>a b. Before (time a) (time b)) gap_series
   \<and> (1::int) \<le> 3 \<and> (0::int) \<le> 3 \<and> 3 < int (length gap_slots)
   \<and> list_all (\<lambda>p. nsec (time p) = 0) gap_series \<and> list_all (\<lambda>s. nsec s = 0) gap_slots
   \<and> has_value gap_series (gap_slots ! nat 3)
   \<and> buildSparkWindow gap_series 3 3 gap_slots
        = Inr [\<lparr>Temp = 41, Time = \<lparr>unixSec = 10, nsec = 0, zoneOffset = 0\<rparr>\<rparr>,
               \<lparr>Temp = 43, Time = \<lparr>unixSec = 12, nsec = 0, zoneOffset = 0\<rparr>\<rparr>]"
proof -
  have a: "gap_series \<noteq> []" by (simp add: gap_series_def)
  have b: "sorted_wrt (\<lambda>a b. Before (time a) (time b)) gap_series"
    by (simp add: gap_series_def Before_def)
  have c: "(1::int) \<le> 3" "(0::int) \<le> 3" "3 < int (length gap_slots)"
    by (simp_all add: gap_slots_def)
  have d: "\<forall>p \<in> set gap_series. nsec (time p) = 0" by (simp add: gap_series_def)
  have e: "\<forall>s \<in> set gap_slots. nsec s = 0" by (simp add: gap_slots_def)
  have h: "has_value gap_series (gap_slots ! nat 3)" by code_simp
  obtain result where r: "buildSparkWindow gap_series 3 3 gap_slots = Inr result"
     "result = map (\<lambda>j. \<lparr>Temp = series_value gap_series (gap_slots ! j), Time = gap_slots ! j\<rparr>)
                    (filter (\<lambda>j. has_value gap_series (gap_slots ! j))
                            [nat (max 0 (3 - 3 + 1)) ..< nat 3 + 1])"
    using window_build[OF a b c d e] by blast
  have "map (\<lambda>j. \<lparr>Temp = series_value gap_series (gap_slots ! j), Time = gap_slots ! j\<rparr>)
                    (filter (\<lambda>j. has_value gap_series (gap_slots ! j))
                            [nat (max 0 (3 - 3 + 1)) ..< nat 3 + 1])
        = [\<lparr>Temp = 41, Time = \<lparr>unixSec = 10, nsec = 0, zoneOffset = 0\<rparr>\<rparr>,
           \<lparr>Temp = 43, Time = \<lparr>unixSec = 12, nsec = 0, zoneOffset = 0\<rparr>\<rparr>]"
    by code_simp
  then show ?thesis using a b c d e h r by (simp add: list_all_iff)
qed

text \<open>
  Claim C7 as stated fails for timestamps within one second of each other: the series
  has its only value at 10.1 s, the only slot is at 10.5 s, and the window holds a point
  for that slot, because the lookup is keyed by \<^verbatim>\<open>Unix()\<close>, the whole second.
\<close>

theorem window_build_counterexample:
  "subsecond_series \<noteq> []
   \<and> sorted_wrt (\<lambda>a b. Before (time a) (time b)) subsecond_series
   \<and> sorted_wrt Before subsecond_slots
   \<and> (1::int) \<le> 1 \<and> (0::int) \<le> 0 \<and> 0 < int (length subsecond_slots)
   \<and> \<not> has_value subsecond_series (subsecond_slots ! 0)
   \<and> buildSparkWindow subsecond_series 0 1 subsecond_slots
        = Inr [\<lparr>Temp = 41, Time = subsecond_slots ! 0\<rparr>]"
  by (simp add: subsecond_series_def subsecond_slots_def has_value_def same_instant_def
        buildSparkWindow_def build_tempMap_def index_def Unix_def)


section \<open>Totality of the operations\<close>











end
